(* ===== verification/Prelude.thy ===== *)
theory Prelude
  imports Main "HOL-Library.Word" "HOL-Library.Sublist"
begin

text \<open>
  Shared vocabulary of the development: the machine integer types of the C++ code, the
  collections of simplification rules that the component theories extend, and generic
  lemmas on lists and words that more than one component uses.
\<close>

unbundle bit_operations_syntax

subsection \<open>Machine integers\<close>

text \<open>
  \<open>int32_t\<close> and \<open>uint32_t\<close> are 32-bit words, read with \<^const>\<open>sint\<close> and \<^const>\<open>unat\<close>;
  \<open>size_t\<close> is the 64-bit unsigned integer of the LP64 build.
\<close>

type_synonym i32 = "32 word"
type_synonym u32 = "32 word"
type_synonym size_t = "64 word"

subsection \<open>Collections\<close>

named_theorems frame_simps
  \<open>which fields of a state an operation leaves alone\<close>

named_theorems log_simps
  \<open>what an operation appends to the log of external calls\<close>

subsection \<open>Words\<close>

lemma unat_of_nat_small [simp]: "n < 2 ^ 64 \<Longrightarrow> unat (of_nat n :: size_t) = n"
  by (simp add: unat_of_nat)

lemma unat_size_t_bound: "unat (w :: size_t) < 2 ^ 64"
  using unsigned_less [of w] by simp

lemma unat_add_small:
  fixes a b :: size_t
  assumes "unat a + unat b < 2 ^ 64"
  shows "unat (a + b) = unat a + unat b"
  using assms by (simp add: unat_word_ariths)

lemma unat_sub_small:
  fixes a b :: size_t
  assumes "unat b \<le> unat a"
  shows "unat (a - b) = unat a - unat b"
  using assms by (simp add: unat_sub word_le_nat_alt)

subsection \<open>Lists\<close>

lemma length_filter_le_take: "length (filter P (take n xs)) \<le> length (filter P xs)"
  by (induction xs arbitrary: n) (auto simp: take_Cons split: nat.splits intro: le_SucI)

lemma subseq_append_drop: "subseq xs ys \<Longrightarrow> subseq xs (ys @ zs)"
  by (rule list_emb_prefix)

end
