(* ===== verification/Fifo_Spec.thy ===== *)
theory Fifo_Spec
  imports Prelude
begin

text \<open>
  What the proxy promises about events, without queues, mutexes and threads: a line in which
  events wait and from which they are delivered in order.  Runs of labelled transition
  systems, the interface of a simulation between two of them, and what holds for the line.
\<close>

subsection \<open>Runs\<close>

inductive run :: "('s \<Rightarrow> 'l \<Rightarrow> 's \<Rightarrow> bool) \<Rightarrow> 's \<Rightarrow> 'l list \<Rightarrow> 's \<Rightarrow> bool" for step where
  none: "run step s [] s"
| some: "run step s ls t \<Longrightarrow> step t l u \<Longrightarrow> run step s (ls @ [l]) u"

lemma run_invariant:
  assumes "run step s ls t" and "good s"
    and "\<And>s l t. step s l t \<Longrightarrow> good s \<Longrightarrow> good t"
  shows "good t"
  using assms by (induction rule: run.induct) blast+

lemma run_one: "step s l t \<Longrightarrow> run step s [l] t"
  using run.some [OF run.none] by fastforce

lemma run_append: "run step t ls' u \<Longrightarrow> run step s ls t \<Longrightarrow> run step s (ls @ ls') u"
proof (induction rule: run.induct)
  case (some t ls' u l v)
  have "run step s (ls @ ls') u" by (rule some.IH [OF some.prems])
  then have "run step s ((ls @ ls') @ [l]) v" using some.hyps(2) by (rule run.some)
  then show ?case by simp
qed simp

lemma run_Cons: "step s l t \<Longrightarrow> run step t ls u \<Longrightarrow> run step s (l # ls) u"
  using run_append [OF _ run_one, of step t ls u s l] by simp

lemma run_labels: "run (\<lambda>x l y. step x (f l) y) s ls t \<Longrightarrow> run step s (map f ls) t"
  by (induction rule: run.induct) (auto intro: run.intros)

text \<open>
  A system refines another if, while an invariant holds, each of its steps is a step of the
  other with the same label, seen through a function between the states.
\<close>

locale simulation =
  fixes step :: "'s \<Rightarrow> 'l \<Rightarrow> 's \<Rightarrow> bool"
    and spec :: "'t \<Rightarrow> 'l \<Rightarrow> 't \<Rightarrow> bool"
    and good :: "'s \<Rightarrow> bool"
    and view :: "'s \<Rightarrow> 't"
  assumes keeps: "good s \<Longrightarrow> step s l t \<Longrightarrow> good t"
    and simulates: "good s \<Longrightarrow> step s l t \<Longrightarrow> spec (view s) l (view t)"
begin

lemma run_keeps: "run step s ls t \<Longrightarrow> good s \<Longrightarrow> good t"
  by (erule run_invariant) (auto intro: keeps)

lemma run_simulates: "run step s ls t \<Longrightarrow> good s \<Longrightarrow> run spec (view s) ls (view t)"
  by (induction rule: run.induct) (auto intro: run.intros simulates run_keeps)

end

subsection \<open>The line of waiting events\<close>

text \<open>
  A step offers events, or writes (and succeeds or not), or starts anew, or is of no concern
  to the events.
\<close>

datatype 'e label = POST "'e list" | WRITE bool | RESTART | TAU

fun offered_by :: "'e label \<Rightarrow> 'e list" where
  "offered_by (POST es) = es"
| "offered_by (WRITE ok) = []"
| "offered_by RESTART = []"
| "offered_by TAU = []"

definition offered :: "'e label list \<Rightarrow> 'e list" where
  "offered ls = concat (map offered_by ls)"

lemma offered_simps [simp]:
  "offered [] = []"
  "offered (ls @ ls') = offered ls @ offered ls'"
  "offered (l # ls) = offered_by l @ offered ls"
  by (simp_all add: offered_def)

text \<open>
  The state: what was delivered, how many places of the line are still taken by events that
  were dealt with already, and what waits.  Of the events that are offered some may be
  delivered at once, but only if the line is empty; the rest waits if at most \<open>L\<close> places are
  taken then, and is lost otherwise.  A write delivers some events from the front of the line,
  or loses them if it fails; their places become free some time later.  A new start delivers
  some more and loses the others.
\<close>

type_synonym 'e fifo = "'e list \<times> nat \<times> 'e list"

fun delivered :: "'e fifo \<Rightarrow> 'e list" where
  "delivered (d, k, w) = d"

fun queued :: "'e fifo \<Rightarrow> 'e list" where
  "queued (d, k, w) = w"

fun places :: "'e fifo \<Rightarrow> nat" where
  "places (d, k, w) = k + length w"

inductive fifo_step :: "nat \<Rightarrow> 'e fifo \<Rightarrow> 'e label \<Rightarrow> 'e fifo \<Rightarrow> bool" for L where
  offer: "n \<le> length es \<Longrightarrow> n = 0 \<or> k = 0 \<and> w = [] \<Longrightarrow>
    w' = (if k + length w + (length es - n) \<le> L then w @ drop n es else w) \<Longrightarrow>
    fifo_step L (d, k, w) (POST es) (d @ take n es, k, w')"
| deliver: "n \<le> length w \<Longrightarrow> fifo_step L (d, 0, w) (WRITE True) (d @ take n w, n, drop n w)"
| lose: "n \<le> length w \<Longrightarrow> fifo_step L (d, 0, w) (WRITE False) (d, n, drop n w)"
| free: "fifo_step L (d, k, w) TAU (d, 0, w)"
| restart: "fifo_step L (d, k, w) RESTART (d @ take n w, 0, [])"
| idle: "fifo_step L x TAU x"

inductive_cases fifo_stepE: "fifo_step L x l y"

inductive_simps fifo_step_simps:
  "fifo_step L (d, k, w) (POST es) (d', k', w')"
  "fifo_step L (d, k, w) (WRITE True) (d', k', w')"
  "fifo_step L (d, k, w) (WRITE False) (d', k', w')"
  "fifo_step L (d, k, w) RESTART (d', k', w')"
  "fifo_step L (d, k, w) TAU (d', k', w')"

abbreviation fifo_run :: "nat \<Rightarrow> 'e fifo \<Rightarrow> 'e label list \<Rightarrow> 'e fifo \<Rightarrow> bool" where
  "fifo_run L \<equiv> run (fifo_step L)"

lemma subseq_drop: "subseq (drop n xs) xs"
  by (metis append_take_drop_id list_emb_append2 subseq_order.order_refl)

lemma subseq_take: "subseq (take n xs) xs"
  by (metis append_take_drop_id subseq_append_drop subseq_order.order_refl)

text \<open>Nothing is delivered twice or out of order.\<close>

lemma fifo_step_order:
  assumes "fifo_step L x l y"
  shows "\<exists>new. delivered y = delivered x @ new \<and> subseq (new @ queued y) (queued x @ offered_by l)"
  using assms
proof (cases rule: fifo_step.cases)
  case (offer n es k w w' d)
  then consider "n = 0" "w' = w @ es" | "n = 0" "w' = w" | "w = []" "w' = drop n es" | "w = []" "w' = []"
    by (auto split: if_splits)
  then show ?thesis
    using offer by cases (auto simp: subseq_append_drop subseq_take)
next
  case (restart d k w n)
  then show ?thesis by (auto simp: subseq_take)
qed (auto simp: subseq_drop)

lemma fifo_run_order:
  assumes "fifo_run L x ls y"
  shows "\<exists>new. delivered y = delivered x @ new \<and> subseq (new @ queued y) (queued x @ offered ls)"
  using assms
proof (induction rule: run.induct)
  case (some x ls y l z)
  obtain new where new: "delivered y = delivered x @ new" "subseq (new @ queued y) (queued x @ offered ls)"
    using some.IH by blast
  obtain last where last: "delivered z = delivered y @ last" "subseq (last @ queued z) (queued y @ offered_by l)"
    using fifo_step_order [OF some.hyps(2)] by blast
  have "subseq (new @ last @ queued z) (new @ queued y @ offered_by l)"
    using last(2) by (simp add: subseq_append')
  also have "subseq (new @ queued y @ offered_by l) (queued x @ offered ls @ offered_by l)"
    using list_emb_append_mono [OF new(2), of "offered_by l" "offered_by l"] by simp
  finally show ?case using new(1) last(1) by simp
qed simp

text \<open>The line never takes more than its limit of places, nor more than were asked for.\<close>

lemma fifo_step_limit: "fifo_step L x l y \<Longrightarrow> places x \<le> L \<Longrightarrow> places y \<le> L"
  by (erule fifo_step.cases) (auto split: if_splits)

lemma fifo_run_limit: "fifo_run L x ls y \<Longrightarrow> places x \<le> L \<Longrightarrow> places y \<le> L"
  by (erule run_invariant) (auto intro: fifo_step_limit)

lemma fifo_step_places: "fifo_step L x l y \<Longrightarrow> places y \<le> places x + length (offered_by l)"
  by (erule fifo_step.cases) (auto split: if_splits)

lemma fifo_run_places: "fifo_run L x ls y \<Longrightarrow> places y \<le> places x + length (offered ls)"
proof (induction rule: run.induct)
  case (some x ls y l z)
  then show ?case using fifo_step_places [OF some.hyps(2)] by simp
qed simp

text \<open>Events are lost only by an overflow, a failing write or a new start.\<close>

lemma fifo_step_lossless:
  assumes "fifo_step L x l y" and "l \<noteq> WRITE False" and "l \<noteq> RESTART"
    and "places x + length (offered_by l) \<le> L"
  shows "delivered y @ queued y = delivered x @ queued x @ offered_by l"
  using assms by (cases rule: fifo_stepE) auto

lemma fifo_run_lossless:
  assumes "fifo_run L x ls y" and "WRITE False \<notin> set ls" and "RESTART \<notin> set ls"
    and "places x + length (offered ls) \<le> L"
  shows "delivered y @ queued y = delivered x @ queued x @ offered ls"
  using assms
proof (induction rule: run.induct)
  case (some x ls y l z)
  have "delivered z @ queued z = delivered y @ queued y @ offered_by l"
    using some.prems fifo_run_places [OF some.hyps(1)]
    by (intro fifo_step_lossless [OF some.hyps(2)]) auto
  then show ?case using some by simp
qed simp

end
