(* ===== verification/Cpp_Float.thy ===== *)
theory Cpp_Float
  imports Prelude "HOL-Library.Log_Nat"
begin

text \<open>
  The C++ types \<open>float\<close> and \<open>double\<close> as the code uses them: IEEE 754 binary32 and binary64
  with rounding to nearest, ties to even.  A value is a rational number, one of the two
  infinities, or not-a-number; both zeros are one value here, which only a division by a
  negative zero could tell apart.  Every \<open>float\<close> is a \<open>double\<close>, so the promotion is the
  identity; the conversion back rounds.  Comparisons with not-a-number are false, and
  \<open>std::max\<close> and \<open>std::min\<close> are the comparisons of the standard library, argument order
  included.
\<close>

datatype fl = Fin rat | PInf | NInf | NaN

subsection \<open>Rounding\<close>

record float_format =
  precision :: int
  emin :: int
  emax :: int

definition binary32 :: float_format where
  "binary32 = \<lparr>precision = 24, emin = - 126, emax = 127\<rparr>"

definition binary64 :: float_format where
  "binary64 = \<lparr>precision = 53, emin = - 1022, emax = 1023\<rparr>"

definition pow2 :: "int \<Rightarrow> rat" where
  "pow2 k = (if 0 \<le> k then 2 ^ nat k else 1 / 2 ^ nat (- k))"

definition round_half_even :: "rat \<Rightarrow> int" where
  "round_half_even x =
     (let f = \<lfloor>x\<rfloor>; d = x - of_int f
      in if d < 1 / 2 then f
         else if 1 / 2 < d then f + 1
         else if even f then f else f + 1)"

text \<open>The binary exponent of a positive rational, from the lengths of its two parts.\<close>

definition exponent_of :: "rat \<Rightarrow> int" where
  "exponent_of x =
     (let (n, d) = quotient_of x; e = bitlen n - bitlen d
      in if x < pow2 e then e - 1 else e)"

definition round_mag :: "float_format \<Rightarrow> rat \<Rightarrow> rat" where
  "round_mag fmt a =
     (let q = pow2 (max (exponent_of a) (emin fmt) - (precision fmt - 1))
      in of_int (round_half_even (a / q)) * q)"

definition rnd :: "float_format \<Rightarrow> rat \<Rightarrow> fl" where
  "rnd fmt x =
     (if x = 0 then Fin 0
      else let r = round_mag fmt \<bar>x\<bar>
           in if emax fmt < exponent_of r then (if 0 < x then PInf else NInf)
              else Fin (if 0 < x then r else - r))"

fun to_float :: "fl \<Rightarrow> fl" where
  "to_float (Fin x) = rnd binary32 x"
| "to_float v = v"

subsection \<open>Arithmetic\<close>

fun fneg :: "fl \<Rightarrow> fl" where
  "fneg (Fin x) = Fin (- x)"
| "fneg PInf = NInf"
| "fneg NInf = PInf"
| "fneg NaN = NaN"

fun fadd :: "float_format \<Rightarrow> fl \<Rightarrow> fl \<Rightarrow> fl" where
  "fadd fmt (Fin x) (Fin y) = rnd fmt (x + y)"
| "fadd fmt NaN _ = NaN"
| "fadd fmt _ NaN = NaN"
| "fadd fmt PInf NInf = NaN"
| "fadd fmt NInf PInf = NaN"
| "fadd fmt PInf _ = PInf"
| "fadd fmt NInf _ = NInf"
| "fadd fmt _ PInf = PInf"
| "fadd fmt _ NInf = NInf"

definition fsub :: "float_format \<Rightarrow> fl \<Rightarrow> fl \<Rightarrow> fl" where
  "fsub fmt a b = fadd fmt a (fneg b)"

definition inf_of_sign :: "rat \<Rightarrow> fl" where
  "inf_of_sign s = (if 0 < s then PInf else if s < 0 then NInf else NaN)"

fun fsgn :: "fl \<Rightarrow> rat" where
  "fsgn (Fin x) = sgn x"
| "fsgn PInf = 1"
| "fsgn NInf = - 1"
| "fsgn NaN = 0"

fun fmul :: "float_format \<Rightarrow> fl \<Rightarrow> fl \<Rightarrow> fl" where
  "fmul fmt (Fin x) (Fin y) = rnd fmt (x * y)"
| "fmul fmt a b = inf_of_sign (fsgn a * fsgn b)"

fun fdiv :: "float_format \<Rightarrow> fl \<Rightarrow> fl \<Rightarrow> fl" where
  "fdiv fmt NaN _ = NaN"
| "fdiv fmt _ NaN = NaN"
| "fdiv fmt (Fin x) (Fin y) = (if y = 0 then inf_of_sign (sgn x) else rnd fmt (x / y))"
| "fdiv fmt (Fin x) _ = Fin 0"
| "fdiv fmt PInf (Fin y) = (if y < 0 then NInf else PInf)"
| "fdiv fmt NInf (Fin y) = (if y < 0 then PInf else NInf)"
| "fdiv fmt _ _ = NaN"

subsection \<open>Comparison\<close>

fun fless :: "fl \<Rightarrow> fl \<Rightarrow> bool" where
  "fless NaN _ = False"
| "fless _ NaN = False"
| "fless (Fin x) (Fin y) = (x < y)"
| "fless NInf NInf = False"
| "fless NInf _ = True"
| "fless PInf _ = False"
| "fless (Fin x) PInf = True"
| "fless (Fin x) NInf = False"

fun fle :: "fl \<Rightarrow> fl \<Rightarrow> bool" where
  "fle NaN _ = False"
| "fle _ NaN = False"
| "fle (Fin x) (Fin y) = (x \<le> y)"
| "fle NInf _ = True"
| "fle _ PInf = True"
| "fle PInf _ = False"
| "fle (Fin x) NInf = False"

text \<open>\<open>std::max (a, b)\<close> is \<open>a < b ? b : a\<close> and \<open>std::min (a, b)\<close> is \<open>b < a ? b : a\<close>.\<close>

definition fmax :: "fl \<Rightarrow> fl \<Rightarrow> fl" where
  "fmax a b = (if fless a b then b else a)"

definition fmin :: "fl \<Rightarrow> fl \<Rightarrow> fl" where
  "fmin a b = (if fless b a then b else a)"

end
