(* ===== verification/Float_Laws.thy ===== *)
theory Float_Laws
  imports Cpp_Float
begin

text \<open>
  Laws of the arithmetic of \<open>Cpp_Float\<close>: rounding is monotone, is within half a unit in the
  last place, and leaves the values of its format alone; the values are in a linear order;
  and the results of the operations on \<open>float\<close> are values of this type.
\<close>

subsection \<open>Binary exponents\<close>

lemma pow2_powi: "pow2 k = 2 powi k"
  by (simp add: pow2_def power_int_def field_simps)

lemma bitlen_powi:
  assumes "0 < n"
  shows "2 powi (bitlen n - 1) \<le> (of_int n :: rat)" and "(of_int n :: rat) < 2 powi (bitlen n)"
proof -
  have b: "2 ^ nat (bitlen n - 1) \<le> n" "n < 2 ^ nat (bitlen n)" 
    using bitlen_bounds [OF assms] by auto
  have "0 < bitlen n" using assms bitlen_eq_zero_iff [of n] bitlen_nonneg [of n] by linarith
  then have e: "2 powi (bitlen n - 1) = (of_int (2 ^ nat (bitlen n - 1)) :: rat)"
    "2 powi (bitlen n) = (of_int (2 ^ nat (bitlen n)) :: rat)"
    by (simp_all add: power_int_def)
  show "2 powi (bitlen n - 1) \<le> (of_int n :: rat)" unfolding e using b(1) by (simp only: of_int_le_iff)
  show "(of_int n :: rat) < 2 powi (bitlen n)" unfolding e using b(2) by (simp only: of_int_less_iff)
qed

lemma exponent_of_bounds:
  assumes "0 < x"
  shows "2 powi (exponent_of x) \<le> x" and "x < 2 powi (exponent_of x + 1)"
proof -
  obtain n d where q: "quotient_of x = (n, d)" by fastforce
  then have d: "0 < d" and x: "x = of_int n / of_int d"
    by (simp_all add: quotient_of_denom_pos quotient_of_div)
  then have n: "0 < n" using assms by (simp add: zero_less_divide_iff)
  let ?e = "bitlen n - bitlen d"
  have pos: "0 < (2 powi k :: rat)" for k by simp
  have "x < 2 powi (bitlen n) / 2 powi (bitlen d - 1)"
    unfolding x using bitlen_powi [OF n] bitlen_powi [OF d] n d pos
    by (intro frac_less) (simp_all add: less_imp_le)
  then have up: "x < 2 powi (?e + 1)" by (simp add: power_int_diff power_int_add field_simps)
  have "2 powi (bitlen n - 1) / 2 powi (bitlen d) < x"
    unfolding x using bitlen_powi [OF n] bitlen_powi [OF d] n d pos
    by (intro frac_less2) simp_all
  then have lo: "2 powi (?e - 1) < x" by (simp add: power_int_diff power_int_add field_simps)
  have e: "exponent_of x = (if x < 2 powi ?e then ?e - 1 else ?e)"
    by (simp add: exponent_of_def q Let_def pow2_powi)
  show "2 powi (exponent_of x) \<le> x" "x < 2 powi (exponent_of x + 1)"
    using up lo by (auto simp: e)
qed

lemma powi_less_cancel: "(2 powi a :: rat) < 2 powi b \<Longrightarrow> a < b"
  using power_int_increasing [of b a "2 :: rat"] by (metis linorder_not_less one_le_numeral)

lemma exponent_of_mono: "0 < x \<Longrightarrow> x \<le> y \<Longrightarrow> exponent_of x \<le> exponent_of y"
  using exponent_of_bounds [of x] exponent_of_bounds [of y] powi_less_cancel [of "exponent_of x" "exponent_of y + 1"]
  by simp

lemma exponent_of_unique: "2 powi e \<le> x \<Longrightarrow> x < 2 powi (e + 1) \<Longrightarrow> exponent_of x = e"
proof -
  assume a: "2 powi e \<le> x" "x < 2 powi (e + 1)"
  have "0 < (2 powi e :: rat)" by simp
  then have "0 < x" using a by linarith
  from exponent_of_bounds [OF this] a show ?thesis
    using powi_less_cancel [of e "exponent_of x + 1"] powi_less_cancel [of "exponent_of x" "e + 1"] by linarith
qed

subsection \<open>Rounding\<close>

lemma round_half_even_mono:
  assumes "x \<le> y"
  shows "round_half_even x \<le> round_half_even y"
proof (cases "\<lfloor>x\<rfloor> = \<lfloor>y\<rfloor>")
  case True
  then show ?thesis using assms by (auto simp: round_half_even_def Let_def)
next
  case False
  then have "\<lfloor>x\<rfloor> + 1 \<le> \<lfloor>y\<rfloor>" using floor_mono [OF assms] by linarith
  then show ?thesis by (auto simp: round_half_even_def Let_def)
qed

lemma round_half_even_int [simp]: "round_half_even (of_int k) = k"
  by (simp add: round_half_even_def)

lemma round_half_even_le: "x \<le> of_int k \<Longrightarrow> round_half_even x \<le> k"
  using round_half_even_mono [of x "of_int k"] by simp

lemma round_half_even_ge: "of_int k \<le> x \<Longrightarrow> k \<le> round_half_even x"
  using round_half_even_mono [of "of_int k" x] by simp

lemma round_half_even_error: "\<bar>of_int (round_half_even x) - x\<bar> \<le> 1 / 2"
  using floor_correct [of x] by (auto simp: round_half_even_def Let_def abs_le_iff)

text \<open>The unit in the last place.\<close>

definition ulp :: "float_format \<Rightarrow> rat \<Rightarrow> rat" where
  "ulp fmt a = 2 powi (max (exponent_of a) (emin fmt) - (precision fmt - 1))"

lemma ulp_pos [simp]: "0 < ulp fmt a"
  by (simp add: ulp_def)

lemma ulp_nonzero [simp]: "ulp fmt a \<noteq> 0"
  using ulp_pos [of fmt a] by linarith

lemma round_mag_ulp: "round_mag fmt a = of_int (round_half_even (a / ulp fmt a)) * ulp fmt a"
  by (simp add: round_mag_def ulp_def pow2_powi Let_def)

lemma round_mag_error: "\<bar>round_mag fmt a - a\<bar> \<le> ulp fmt a / 2"
proof -
  have "\<bar>round_mag fmt a - a\<bar> = \<bar>of_int (round_half_even (a / ulp fmt a)) - a / ulp fmt a\<bar> * ulp fmt a"
    by (simp add: round_mag_ulp abs_mult_pos' algebra_simps less_imp_le flip: abs_mult_pos)
  also have "\<dots> \<le> 1 / 2 * ulp fmt a"
    by (intro mult_right_mono round_half_even_error) (simp add: less_imp_le)
  finally show ?thesis by simp
qed

lemma round_mag_le: "a \<le> of_int k * ulp fmt a \<Longrightarrow> round_mag fmt a \<le> of_int k * ulp fmt a"
  using round_half_even_le [of "a / ulp fmt a" k] by (simp add: round_mag_ulp pos_divide_le_eq)

lemma round_mag_ge: "of_int k * ulp fmt a \<le> a \<Longrightarrow> of_int k * ulp fmt a \<le> round_mag fmt a"
  using round_half_even_ge [of k "a / ulp fmt a"] by (simp add: round_mag_ulp pos_le_divide_eq)

text \<open>A power of two that is not below the last place is a multiple of it.\<close>

lemma powi_multiple:
  assumes "max (exponent_of a) (emin fmt) - (precision fmt - 1) \<le> e"
  shows "\<exists>k. 2 powi e = of_int k * ulp fmt a"
proof -
  let ?u = "max (exponent_of a) (emin fmt) - (precision fmt - 1)"
  have "2 powi e = 2 powi (e - ?u) * (2 powi ?u :: rat)"
    by (simp flip: power_int_add)
  moreover have "2 powi (e - ?u) = (of_int (2 ^ nat (e - ?u)) :: rat)"
    using assms by (simp add: power_int_def)
  ultimately show ?thesis unfolding ulp_def by metis
qed

lemma round_mag_nonneg: "0 \<le> a \<Longrightarrow> 0 \<le> round_mag fmt a"
  using round_mag_ge [of 0 fmt a] by simp

lemma exponent_of_powi [simp]: "exponent_of (2 powi e) = e"
  by (rule exponent_of_unique) (simp_all add: power_int_add)

text \<open>The place of the last bit, before it is moved by the precision.\<close>

definition place :: "float_format \<Rightarrow> rat \<Rightarrow> int" where
  "place fmt a = max (exponent_of a) (emin fmt)"

lemma ulp_place: "ulp fmt a = 2 powi (place fmt a - (precision fmt - 1))"
  by (simp add: ulp_def place_def)

lemma powi_multiple_place:
  assumes "1 \<le> precision fmt" and "place fmt a \<le> e"
  obtains k where "2 powi e = of_int k * ulp fmt a"
proof -
  have "max (exponent_of a) (emin fmt) - (precision fmt - 1) \<le> e"
    using assms unfolding place_def by linarith
  from powi_multiple [OF this] show thesis using that by blast
qed

lemma below_place: "0 < a \<Longrightarrow> a < 2 powi (place fmt a + 1)"
  using exponent_of_bounds(2) [of a] power_int_increasing [of "exponent_of a + 1" "place fmt a + 1" "2 :: rat"]
  by (simp add: place_def)

lemma round_mag_mono:
  assumes p: "1 \<le> precision fmt" and a: "0 < a" and ab: "a \<le> b"
  shows "round_mag fmt a \<le> round_mag fmt b"
proof -
  have "exponent_of a \<le> exponent_of b" using a ab by (rule exponent_of_mono)
  then consider "place fmt a = place fmt b"
    | "place fmt b = exponent_of b" "place fmt a + 1 \<le> exponent_of b"
    unfolding place_def by linarith
  then show ?thesis
  proof cases
    case 1
    then have "ulp fmt a = ulp fmt b" by (simp add: ulp_place)
    then show ?thesis
      using round_half_even_mono [of "a / ulp fmt a" "b / ulp fmt b"] ab
      by (simp add: round_mag_ulp divide_right_mono less_imp_le mult_right_mono)
  next
    case 2
    obtain k where k: "2 powi (exponent_of b) = of_int k * ulp fmt a"
      using powi_multiple_place [OF p, of a "exponent_of b"] 2 by auto
    obtain m where m: "2 powi (exponent_of b) = of_int m * ulp fmt b"
      using powi_multiple_place [OF p, of b "exponent_of b"] 2 by auto
    have "a < 2 powi (place fmt a + 1)" using a by (rule below_place)
    also have "\<dots> \<le> 2 powi (exponent_of b)" using 2 by (intro power_int_increasing) simp_all
    finally have "round_mag fmt a \<le> 2 powi (exponent_of b)"
      using round_mag_le [of a k fmt] by (simp add: k)
    also have "\<dots> \<le> round_mag fmt b"
      using round_mag_ge [of m fmt b] exponent_of_bounds(1) [of b] a ab by (simp add: m)
    finally show ?thesis .
  qed
qed

lemma round_mag_grid: "a = of_int k * ulp fmt a \<Longrightarrow> round_mag fmt a = a"
  using round_mag_ulp [of fmt a] by (metis nonzero_mult_div_cancel_right less_irrefl round_half_even_int ulp_pos)

lemma round_mag_idem:
  assumes p: "1 \<le> precision fmt" and a: "0 < a" and y: "0 < round_mag fmt a"
  shows "round_mag fmt (round_mag fmt a) = round_mag fmt a"
proof -
  let ?y = "round_mag fmt a"
  consider "place fmt ?y = place fmt a" | "place fmt a < place fmt ?y" | "place fmt ?y < place fmt a"
    by linarith
  then have "\<exists>k. ?y = of_int k * ulp fmt ?y"
  proof cases
    case 1
    then have "ulp fmt ?y = ulp fmt a" by (simp add: ulp_place)
    then show ?thesis using round_mag_ulp by metis
  next
    case 2
    then have e: "place fmt ?y = exponent_of ?y" "place fmt a + 1 \<le> exponent_of ?y"
      unfolding place_def by linarith+
    obtain k where k: "2 powi (place fmt a + 1) = of_int k * ulp fmt a"
      using powi_multiple_place [OF p, of a "place fmt a + 1"] by auto
    have "?y \<le> 2 powi (place fmt a + 1)"
      using round_mag_le [of a k fmt] below_place [OF a, of fmt] by (simp add: k)
    also have "\<dots> \<le> 2 powi (exponent_of ?y)" using e by (intro power_int_increasing) simp_all
    finally have "?y = 2 powi (exponent_of ?y)"
      using exponent_of_bounds(1) [OF y] by simp
    moreover obtain m where "2 powi (exponent_of ?y) = of_int m * ulp fmt ?y"
      using powi_multiple_place [OF p, of ?y "exponent_of ?y"] e by auto
    ultimately show ?thesis by metis
  next
    case 3
    then have e: "place fmt a = exponent_of a" "exponent_of ?y < exponent_of a"
      unfolding place_def by linarith+
    obtain k where k: "2 powi (exponent_of a) = of_int k * ulp fmt a"
      using powi_multiple_place [OF p, of a "exponent_of a"] e by auto
    have "2 powi (exponent_of a) \<le> ?y"
      using round_mag_ge [of k fmt a] exponent_of_bounds(1) [OF a] by (simp add: k)
    then have "exponent_of a \<le> exponent_of ?y"
      using exponent_of_mono [of "2 powi (exponent_of a)" ?y] by simp
    with e show ?thesis by simp
  qed
  then show ?thesis using round_mag_grid by blast
qed

definition format_ok :: "float_format \<Rightarrow> bool" where
  "format_ok fmt \<longleftrightarrow> 1 \<le> precision fmt \<and> 0 \<le> emax fmt"

lemma format_ok_ieee [simp]: "format_ok binary32" "format_ok binary64"
  by (simp_all add: format_ok_def binary32_def binary64_def)

lemma rnd_zero [simp]: "rnd fmt 0 = Fin 0"
  by (simp add: rnd_def)

lemma rnd_pos: "0 < x \<Longrightarrow> rnd fmt x = (if emax fmt < exponent_of (round_mag fmt x) then PInf
    else Fin (round_mag fmt x))"
  by (simp add: rnd_def Let_def)

lemma rnd_uminus: "rnd fmt (- x) = fneg (rnd fmt x)"
  by (auto simp: rnd_def Let_def)

lemma rnd_idem:
  assumes "format_ok fmt" and "rnd fmt x = Fin y"
  shows "rnd fmt y = Fin y"
proof -
  have pos: "rnd fmt y = Fin y" if "0 < x" "rnd fmt x = Fin y" for x y
  proof -
    have y: "y = round_mag fmt x" and fits: "\<not> emax fmt < exponent_of y"
      using that by (auto simp: rnd_pos split: if_splits)
    show ?thesis
    proof (cases "y = 0")
      case False
      then have "0 < y" using round_mag_nonneg [of x fmt] that(1) y by simp
      then have "round_mag fmt y = y"
        using round_mag_idem [of fmt x] assms(1) that(1) y by (simp add: format_ok_def)
      with \<open>0 < y\<close> fits show ?thesis by (simp add: rnd_pos)
    qed simp
  qed
  consider "x = 0" | "0 < x" | "0 < - x" by linarith
  then show ?thesis
  proof cases
    case 3
    have "rnd fmt (- x) = Fin (- y)" using assms(2) by (simp add: rnd_uminus)
    from pos [OF 3 this] have "fneg (rnd fmt y) = Fin (- y)" by (simp add: rnd_uminus)
    then show ?thesis by (cases "rnd fmt y") simp_all
  qed (use assms pos in auto)
qed

text \<open>Whole numbers below \<open>2^24\<close> are \<open>float\<close> values.\<close>

lemma bitlen_le: "0 < m \<Longrightarrow> m < 2 ^ k \<Longrightarrow> bitlen m \<le> int k"
  using bitlen_le_iff_power [of m k] by simp

lemma quotient_of_nat: "quotient_of (of_nat m) = (int m, 1)"
proof -
  have "(of_nat m :: rat) = Fract (int m) 1" by (metis of_int_of_nat_eq of_int_rat)
  then show ?thesis by (simp add: quotient_of_Fract normalize_def)
qed

lemma bitlen_one: "bitlen 1 = 1"
  by (simp add: bitlen_alt_def)

lemma exponent_of_nat:
  assumes "0 < m" and "m < 2 ^ 24"
  shows "exponent_of (of_nat m) \<le> 23"
proof -
  have "bitlen (int m) \<le> 24"
    using assms bitlen_le [of "int m" 24] by simp
  then show ?thesis
    by (simp add: exponent_of_def quotient_of_nat bitlen_one Let_def)
qed

lemma rnd_nat:
  assumes "m < 2 ^ 24"
  shows "rnd binary32 (of_nat m) = Fin (of_nat m)"
proof (cases "m = 0")
  case False
  let ?k = "max (exponent_of (of_nat m)) (- 126) - 23"
  have e: "exponent_of (of_nat m) \<le> 23"
    using False assms by (intro exponent_of_nat) simp_all
  then have k: "?k \<le> 0" by simp
  have q: "pow2 ?k = 1 / of_int (2 ^ nat (- ?k))"
    using k by (auto simp: pow2_def)
  then have div: "of_nat m / pow2 ?k = of_int (int m * 2 ^ nat (- ?k))"
    by simp
  have "round_mag binary32 (of_nat m) = of_int (round_half_even (of_nat m / pow2 ?k)) * pow2 ?k"
    by (simp add: round_mag_def binary32_def Let_def)
  also have "\<dots> = of_int (int m * 2 ^ nat (- ?k)) * pow2 ?k"
    unfolding div round_half_even_int ..
  also have "\<dots> = of_nat m" unfolding q by simp
  finally show ?thesis
    using False e by (simp add: rnd_def Let_def binary32_def)
qed (simp add: rnd_def)

lemma rnd_numeral: "(numeral k :: nat) < 2 ^ 24 \<Longrightarrow> rnd binary32 (numeral k) = Fin (numeral k)"
  using rnd_nat [of "numeral k"] by simp

subsection \<open>The order of the values\<close>

text \<open>
  A total order that agrees with the comparisons of C++ except that not-a-number, with which
  they are false, is the greatest value.
\<close>

instantiation fl :: linorder
begin

fun less_eq_fl :: "fl \<Rightarrow> fl \<Rightarrow> bool" where
  "less_eq_fl _ NaN = True"
| "less_eq_fl NaN _ = False"
| "less_eq_fl _ PInf = True"
| "less_eq_fl PInf _ = False"
| "less_eq_fl NInf _ = True"
| "less_eq_fl _ NInf = False"
| "less_eq_fl (Fin x) (Fin y) = (x \<le> y)"

definition less_fl :: "fl \<Rightarrow> fl \<Rightarrow> bool" where
  "less_fl a b \<longleftrightarrow> \<not> b \<le> a"

instance
proof
  fix a b c :: fl
  show "a < b \<longleftrightarrow> a \<le> b \<and> \<not> b \<le> a"
    by (cases a; cases b) (auto simp: less_fl_def)
  show "a \<le> a" by (cases a) simp_all
  show "a \<le> b \<Longrightarrow> b \<le> c \<Longrightarrow> a \<le> c" by (cases a; cases b; cases c) simp_all
  show "a \<le> b \<Longrightarrow> b \<le> a \<Longrightarrow> a = b" by (cases a; cases b) simp_all
  show "a \<le> b \<or> b \<le> a" by (cases a; cases b) auto
qed

end

lemma less_Fin [simp]: "Fin x < Fin y \<longleftrightarrow> x < y"
  by (auto simp: less_fl_def)

lemma fless_iff: "fless a b \<longleftrightarrow> a < b \<and> b \<noteq> NaN"
  by (cases a; cases b) (auto simp: less_fl_def)

lemma fle_iff: "fle a b \<longleftrightarrow> a \<le> b \<and> b \<noteq> NaN"
  by (cases a; cases b) auto

lemma fmax_max: "b \<noteq> NaN \<Longrightarrow> fmax a b = (if a = NaN then NaN else max a b)"
  by (cases a; cases b) (auto simp: fmax_def max_def less_fl_def)

lemma fmin_min: "a \<noteq> NaN \<Longrightarrow> fmin a b = min a b"
  by (cases a; cases b) (auto simp: fmin_def min_def less_fl_def)

lemma fneg_le: "a \<noteq> NaN \<Longrightarrow> b \<noteq> NaN \<Longrightarrow> fneg a \<le> fneg b \<longleftrightarrow> b \<le> a"
  by (cases a; cases b) simp_all

lemma rnd_not_NaN [simp]: "rnd fmt x \<noteq> NaN"
  by (simp add: rnd_def Let_def)

lemma rnd_nonneg:
  assumes "0 \<le> x"
  shows "Fin 0 \<le> rnd fmt x"
proof (cases "x = 0")
  case False
  then have "0 < x" using assms by simp
  then show ?thesis by (simp add: rnd_pos round_mag_nonneg)
qed simp

lemma rnd_not_negative: "0 \<le> x \<Longrightarrow> \<not> fless (rnd fmt x) (Fin 0)"
  using rnd_nonneg [of x fmt] by (simp add: fless_iff)

lemma to_float_not_negative: "\<not> fless v (Fin 0) \<Longrightarrow> \<not> fless (to_float v) (Fin 0)"
  by (cases v) (simp_all add: rnd_not_negative)

lemma fless_irrefl [simp]: "\<not> fless v v"
  by (cases v) simp_all

lemma exponent_of_zero: "exponent_of 0 = - 2"
  by (simp add: exponent_of_def Let_def pow2_def bitlen_alt_def)

lemma rnd_mono_pos:
  assumes "format_ok fmt" and "0 < x" and "x \<le> y"
  shows "rnd fmt x \<le> rnd fmt y"
proof -
  let ?r = "round_mag fmt x" and ?s = "round_mag fmt y"
  have le: "?r \<le> ?s"
    using assms by (intro round_mag_mono) (simp_all add: format_ok_def)
  have "emax fmt < exponent_of ?s" if "emax fmt < exponent_of ?r"
  proof -
    have "?r \<noteq> 0" using that assms(1) by (auto simp: exponent_of_zero format_ok_def)
    then have "0 < ?r" using round_mag_nonneg [of x fmt] assms(2) by simp
    then have "exponent_of ?r \<le> exponent_of ?s" using le by (rule exponent_of_mono)
    with that show ?thesis by simp
  qed
  then show ?thesis using assms le by (auto simp: rnd_pos)
qed

lemma rnd_mono:
  assumes "format_ok fmt" and "x \<le> y"
  shows "rnd fmt x \<le> rnd fmt y"
proof -
  consider "0 < x" | "x \<le> 0" "0 \<le> y" | "y < 0" by linarith
  then show ?thesis
  proof cases
    case 1
    then show ?thesis using assms by (intro rnd_mono_pos)
  next
    case 2
    have "Fin 0 \<le> rnd fmt (- x)" using 2 by (intro rnd_nonneg) simp
    then have "rnd fmt x \<le> Fin 0" by (cases "rnd fmt x") (simp_all add: rnd_uminus)
    also have "\<dots> \<le> rnd fmt y" using 2 by (intro rnd_nonneg)
    finally show ?thesis .
  next
    case 3
    then have "rnd fmt (- y) \<le> rnd fmt (- x)" using assms by (intro rnd_mono_pos) simp_all
    then show ?thesis by (simp add: rnd_uminus fneg_le)
  qed
qed

end
