(* ===== verification/Sensor_Types.thy ===== *)
theory Sensor_Types
  imports Float_Laws
begin

text \<open>
  The data of the sensors HAL: results, operation modes, sensor descriptions and events of
  the HIDL interface, the constants that the code takes from headers outside the
  repository, and the log of the calls the code makes to the world outside it.
\<close>

subsection \<open>Results and modes\<close>

text \<open>
  \<open>V1_0::Result\<close>: the three results the repository produces itself, and any other value a
  sub-HAL may return, by its number.
\<close>

datatype result = OK | BAD_VALUE | INVALID_OPERATION | OTHER_RESULT int

text \<open>\<open>OperationMode\<close>.\<close>

datatype operation_mode = NORMAL | DATA_INJECTION

text \<open>\<open>RateLevel\<close>: the code only asks whether the rate is \<open>STOP\<close>.\<close>

datatype rate_level = STOP | RATE int

subsection \<open>Sensors and events\<close>

text \<open>
  \<open>V2_1::SensorInfo\<close>: the members the repository reads or writes.  The remaining members
  travel with the record unchanged.
\<close>

record sensor_info =
  info_sensorHandle :: i32
  info_name :: string
  info_type :: i32
  info_flags :: u32

text \<open>What \<open>operator[]\<close> of a map stores for a missing key: the value-initialised structure.\<close>

definition default_sensor_info :: sensor_info where
  "default_sensor_info =
     \<lparr>info_sensorHandle = 0, info_name = [], info_type = 0, info_flags = 0\<rparr>"

text \<open>
  \<open>V2_1::Event\<close>.  Of the payload union the repository touches three members:
  \<open>u.scalar\<close>, \<open>u.data[2]\<close> (light events) and \<open>u.dynamic.sensorHandle\<close> (dynamic sensor
  events); each kind of event uses only its own members, so they are separate fields here.
\<close>

record event =
  sensorHandle :: i32
  sensorType :: i32
  timestamp :: int
  u_scalar :: fl
  u_data2 :: fl
  u_dynamic_sensorHandle :: i32

subsection \<open>Constants of headers outside the repository\<close>

text \<open>
  The code takes these from \<open>HalProxy.h\<close>, \<open>SubHal.h\<close>, \<open>ScopedWakelock.h\<close> and the
  generated HIDL types.  They are parameters of the model, under the names the code uses.
\<close>

record hal_consts =
  kSensorHandleSubHalIndexMask :: i32
  kMaxSizePendingWriteEventsQueue :: size_t
  kWakelockTimeoutNs :: int
  SUB_HAL_2_0_VERSION :: u32
  SUB_HAL_2_1_VERSION :: u32
  WAKE_UP :: u32
  MASK_DIRECT_REPORT :: u32
  MASK_DIRECT_CHANNEL :: u32
  LIGHT :: i32
  HINGE_ANGLE :: i32
  DYNAMIC_SENSOR_META :: i32
  ADDITIONAL_INFO :: i32

text \<open>\<open>AlsCorrection.h\<close> declares the vendor's type of the light sensor.\<close>

definition SENSOR_TYPE_QTI_WISE_LIGHT :: i32 where
  "SENSOR_TYPE_QTI_WISE_LIGHT = 33171103"

text \<open>
  The documented behaviour of the mask: it selects the first byte of a sensor handle, which
  the comments of \<open>HalProxy.cpp\<close> say the sub-HAL index occupies.
\<close>

definition mask_is_first_byte :: "hal_consts \<Rightarrow> bool" where
  "mask_is_first_byte K \<longleftrightarrow> kSensorHandleSubHalIndexMask K = 0xFF000000"

text \<open>A concrete instance, used where a statement is evaluated at an example.\<close>

definition example_consts :: hal_consts where
  "example_consts =
     \<lparr>kSensorHandleSubHalIndexMask = 0xFF000000,
      kMaxSizePendingWriteEventsQueue = 100000,
      kWakelockTimeoutNs = 1000000000,
      SUB_HAL_2_0_VERSION = 33554432, SUB_HAL_2_1_VERSION = 33619968,
      WAKE_UP = 1, MASK_DIRECT_REPORT = 0x380, MASK_DIRECT_CHANNEL = 0xC00,
      LIGHT = 5, HINGE_ANGLE = 36, DYNAMIC_SENSOR_META = 32, ADDITIONAL_INFO = 33\<rparr>"

lemma mask_is_first_byte_example [simp]: "mask_is_first_byte example_consts"
  by (simp add: mask_is_first_byte_def example_consts_def)

subsection \<open>Calls to the outside\<close>

text \<open>
  The calls whose order matters to the outside: the kernel wake lock, the two condition
  variables, the event queue shared with the framework and its flags, and the callback
  that announces dynamic sensors.
\<close>

datatype ext_call =
    ACQUIRE_WAKE_LOCK
  | RELEASE_WAKE_LOCK
  | NOTIFY_WAKELOCK_CV
  | NOTIFY_EVENT_QUEUE_WRITE_CV
  | FMQ_WRITE "event list"
  | FMQ_READ nat
  | WAKE_EVENTS_READ
  | WAKE_READ_AND_PROCESS
  | WAKELOCK_QUEUE_WRITE u32
  | WAKE_DATA_WRITTEN
  | ON_DYNAMIC_SENSORS_CONNECTED "sensor_info list"
  | ON_DYNAMIC_SENSORS_DISCONNECTED "i32 list"

text \<open>The events the framework can read, in the order they were written.\<close>

fun written :: "ext_call list \<Rightarrow> event list" where
  "written [] = []"
| "written (FMQ_WRITE es # cs) = es @ written cs"
| "written (_ # cs) = written cs"

lemma written_append [simp]: "written (xs @ ys) = written xs @ written ys"
  by (induction xs rule: written.induct) auto

text \<open>
  Whether the kernel wake lock is held: the last call that concerns it decides.  It is a
  named lock of the kernel, so acquiring it twice is the same as acquiring it once.
\<close>

fun lock_after :: "bool \<Rightarrow> ext_call list \<Rightarrow> bool" where
  "lock_after h [] = h"
| "lock_after h (ACQUIRE_WAKE_LOCK # cs) = lock_after True cs"
| "lock_after h (RELEASE_WAKE_LOCK # cs) = lock_after False cs"
| "lock_after h (_ # cs) = lock_after h cs"

lemma lock_after_append [simp]: "lock_after h (xs @ ys) = lock_after (lock_after h xs) ys"
  by (induction h xs rule: lock_after.induct) auto

definition wakelock_held :: "ext_call list \<Rightarrow> bool" where
  "wakelock_held cs = lock_after False cs"

end
