(* ===== verification/Sensor_Handle.thy ===== *)
theory Sensor_Handle
  imports Sensor_Types
begin

text \<open>
  Sensor handles carry the index of their sub-HAL in the first byte.  The operations are the
  bit manipulations of \<open>HalProxy.cpp\<close>, and the second copy of \<open>setSubHalIndex\<close> in
  \<open>HalProxyCallback.cpp\<close>.  The shift to the left is the one of two's complement machines;
  the shift to the right of an \<open>int32_t\<close> is arithmetic, and its conversion to \<open>size_t\<close>
  extends the sign.
\<close>

subsection \<open>Operations\<close>

definition kBitsAfterSubHalIndex :: nat where
  "kBitsAfterSubHalIndex = 24"

definition setSubHalIndex :: "i32 \<Rightarrow> size_t \<Rightarrow> i32" where
  "setSubHalIndex sensor_handle subHalIndex =
     sensor_handle OR push_bit kBitsAfterSubHalIndex (ucast subHalIndex)"

definition extractSubHalIndex :: "i32 \<Rightarrow> size_t" where
  "extractSubHalIndex sensor_handle = scast (signed_drop_bit kBitsAfterSubHalIndex sensor_handle)"

definition clearSubHalIndex :: "hal_consts \<Rightarrow> i32 \<Rightarrow> i32" where
  "clearSubHalIndex K sensor_handle = sensor_handle AND NOT (kSensorHandleSubHalIndexMask K)"

definition subHalIndexIsClear :: "hal_consts \<Rightarrow> i32 \<Rightarrow> bool" where
  "subHalIndexIsClear K sensor_handle \<longleftrightarrow>
     sensor_handle AND kSensorHandleSubHalIndexMask K = 0"

text \<open>The copy of \<open>HalProxyCallback.cpp\<close>.\<close>

definition callback_kBitsAfterSubHalIndex :: nat where
  "callback_kBitsAfterSubHalIndex = 24"

definition callback_setSubHalIndex :: "i32 \<Rightarrow> size_t \<Rightarrow> i32" where
  "callback_setSubHalIndex sensor_handle subHalIndex =
     sensor_handle OR push_bit callback_kBitsAfterSubHalIndex (ucast subHalIndex)"

subsection \<open>Bits\<close>

lemma first_byte_mask: "(0xFF000000 :: i32) = NOT (mask 24)"
  by (simp add: mask_eq_exp_minus_1)

lemma clear_eq_take_bit: "mask_is_first_byte K \<Longrightarrow> clearSubHalIndex K h = take_bit 24 h"
  by (simp add: clearSubHalIndex_def mask_is_first_byte_def first_byte_mask take_bit_eq_mask)

lemma isClear_iff_take_bit:
  "mask_is_first_byte K \<Longrightarrow> subHalIndexIsClear K h \<longleftrightarrow> take_bit 24 h = h"
  unfolding subHalIndexIsClear_def mask_is_first_byte_def first_byte_mask
  by (auto simp: bit_eq_iff bit_simps)

lemma take_bit_no_high_bits: "take_bit k h = h \<Longrightarrow> k \<le> m \<Longrightarrow> \<not> bit (h :: 'a::len word) m"
  by (metis bit_take_bit_iff linorder_not_less)

lemma size_t_high_bits:
  assumes "unat (idx :: size_t) < 2 ^ k" and "k \<le> m"
  shows "\<not> bit idx m"
proof -
  have "unat idx < 2 ^ m"
    using assms by (meson order_less_le_trans power_increasing one_le_numeral)
  then have "\<not> bit (unat idx) m" by (simp add: bit_iff_odd)
  then show ?thesis by (simp add: bit_unsigned_iff)
qed

lemma set_index_take_bit: "take_bit 24 (setSubHalIndex h idx) = take_bit 24 h"
  by (rule bit_word_eqI) (auto simp: setSubHalIndex_def kBitsAfterSubHalIndex_def bit_simps)

lemma extract_set_bits:
  assumes "take_bit 24 h = h" and "n < 64"
  shows "bit (extractSubHalIndex (setSubHalIndex h idx)) n = bit idx (min n 7)"
proof -
  have "\<not> bit h m" if "24 \<le> m" for m
    using assms(1) that by (rule take_bit_no_high_bits)
  with assms(2) show ?thesis
    by (auto simp: extractSubHalIndex_def setSubHalIndex_def kBitsAfterSubHalIndex_def bit_simps
        min_def)
qed

lemma extract_set_low:
  assumes "take_bit 24 h = h" and "unat idx < 128"
  shows "extractSubHalIndex (setSubHalIndex h idx) = idx"
proof (rule bit_word_eqI)
  have idx: "\<not> bit idx m" if "7 \<le> m" for m
    using assms(2) that by (intro size_t_high_bits [where k = 7]) simp_all
  fix n :: nat assume "n < LENGTH(64)"
  then have "bit (extractSubHalIndex (setSubHalIndex h idx)) n = bit idx (min n 7)"
    by (intro extract_set_bits assms(1)) simp
  also have "\<dots> = bit idx n"
    using idx by (cases "n \<le> 7") (simp_all add: min_def)
  finally show "bit (extractSubHalIndex (setSubHalIndex h idx)) n = bit idx n" .
qed

lemma size_t_bit_7:
  assumes "128 \<le> unat (idx :: size_t)" and "unat idx < 256"
  shows "bit idx 7"
proof -
  from assms have "unat idx div 128 = 1" by (simp add: div_nat_eqI)
  then have "bit (unat idx) 7" by (simp add: bit_iff_odd)
  then show ?thesis by (simp add: bit_unsigned_iff)
qed

lemma extract_set_high:
  assumes "take_bit 24 h = h" and "bit idx 7"
  shows "NOT (mask 7) \<le> extractSubHalIndex (setSubHalIndex h idx)"
proof -
  let ?e = "extractSubHalIndex (setSubHalIndex h idx)"
  have "?e = ?e OR NOT (mask 7)"
  proof (rule bit_word_eqI)
    fix n :: nat assume "n < LENGTH(64)"
    with extract_set_bits [OF assms(1), of n idx] assms(2)
    show "bit ?e n = bit (?e OR NOT (mask 7)) n"
      by (auto simp: bit_simps min_def)
  qed
  then show ?thesis by (metis le_word_or1)
qed

subsection \<open>The interface: a handle carries an index and a sub-HAL handle\<close>

locale handle_codec =
  fixes ok :: "'k \<Rightarrow> bool"
    and set_index :: "i32 \<Rightarrow> size_t \<Rightarrow> i32"
    and get_index :: "i32 \<Rightarrow> size_t"
    and clear :: "'k \<Rightarrow> i32 \<Rightarrow> i32"
    and is_clear :: "'k \<Rightarrow> i32 \<Rightarrow> bool"
    and in_range :: "size_t \<Rightarrow> bool"
  assumes get_set: "ok K \<Longrightarrow> is_clear K h \<Longrightarrow> in_range i \<Longrightarrow> get_index (set_index h i) = i"
    and clear_set: "ok K \<Longrightarrow> is_clear K h \<Longrightarrow> clear K (set_index h i) = h"
    and clear_is_clear: "ok K \<Longrightarrow> is_clear K (clear K h)"
    and clear_id: "ok K \<Longrightarrow> is_clear K h \<Longrightarrow> clear K h = h"
begin

lemma set_inject:
  assumes "ok K" and "is_clear K h" and "is_clear K h'" and "in_range i" and "in_range i'"
  shows "set_index h i = set_index h' i' \<longleftrightarrow> h = h' \<and> i = i'"
  using assms by (metis clear_set get_set)

lemma clear_idem: "ok K \<Longrightarrow> clear K (clear K h) = clear K h"
  by (simp add: clear_id clear_is_clear)

end

interpretation handle: handle_codec mask_is_first_byte setSubHalIndex extractSubHalIndex
  clearSubHalIndex subHalIndexIsClear "\<lambda>i. unat i < 128"
  by unfold_locales
    (simp_all add: clear_eq_take_bit isClear_iff_take_bit set_index_take_bit extract_set_low)

lemma callback_setSubHalIndex_eq: "callback_setSubHalIndex = setSubHalIndex"
  by (intro ext) (simp add: callback_setSubHalIndex_def setSubHalIndex_def kBitsAfterSubHalIndex_def
      callback_kBitsAfterSubHalIndex_def)

lemma isClear_example [simp]: "subHalIndexIsClear example_consts h \<longleftrightarrow> h AND 0xFF000000 = 0"
  by (simp add: subHalIndexIsClear_def example_consts_def)

subsection \<open>Properties\<close>

text \<open>
  C18: the proxy's handle of a sensor determines both the sub-HAL and the sub-HAL's own
  handle.  For a sub-HAL handle whose first byte is clear and an index below 128, packing
  and unpacking is the identity on both parts.
\<close>

theorem handle_roundtrip:
  assumes "mask_is_first_byte K" and "subHalIndexIsClear K h" and "unat idx < 128"
  shows "extractSubHalIndex (setSubHalIndex h idx) = idx
       \<and> clearSubHalIndex K (setSubHalIndex h idx) = h"
  using assms by (simp add: handle.get_set handle.clear_set)

theorem handle_roundtrip_witness:
  "extractSubHalIndex (setSubHalIndex 7 3) = 3
     \<and> clearSubHalIndex example_consts (setSubHalIndex 7 3) = 7"
  by (rule handle_roundtrip) simp_all

text \<open>
  C19: the bit operations compute what the packing means.  Setting an index of one byte in a
  handle with a clear first byte adds \<open>2^24\<close> times the index; extracting is the division by
  \<open>2^24\<close> of the handle as a signed number, rounded down; clearing is the remainder of the
  handle as an unsigned number; and the first byte is clear exactly if the handle is below
  \<open>2^24\<close>.
\<close>

theorem handle_operations_arithmetic:
  assumes "mask_is_first_byte K" and "subHalIndexIsClear K h" and "unat idx < 256"
  shows "uint (setSubHalIndex h idx) = uint h + 2 ^ 24 * uint idx
       \<and> extractSubHalIndex k = of_int (sint k div 2 ^ 24)
       \<and> unat (clearSubHalIndex K k) = unat k mod 2 ^ 24
       \<and> (subHalIndexIsClear K k \<longleftrightarrow> unat k < 2 ^ 24)"
proof -
  have mod: "unat (take_bit 24 x :: i32) = unat x mod 2 ^ 24" for x
    by (simp only: unsigned_take_bit_eq) (simp add: take_bit_eq_mod)
  have clear: "subHalIndexIsClear K x \<longleftrightarrow> unat x < 2 ^ 24" for x
    unfolding isClear_iff_take_bit [OF assms(1)]
    by (metis mod mod_less mod_less_divisor unsigned_word_eqI zero_less_numeral zero_less_power)
  have idx: "unat (ucast idx :: i32) = unat idx"
    using assms(3) by (simp add: unsigned_ucast_eq take_bit_nat_eq_self)
  have "take_bit 24 h = h" using assms(1,2) by (simp add: isClear_iff_take_bit)
  then have "\<not> bit h n" if "24 \<le> n" for n
    using that by (rule take_bit_no_high_bits)
  then have "setSubHalIndex h idx = h + push_bit 24 (ucast idx)"
    unfolding setSubHalIndex_def kBitsAfterSubHalIndex_def
    by (subst disjunctive_add) (auto simp: bit_simps not_le)
  moreover have "unat h + 2 ^ 24 * unat (ucast idx :: i32) < 2 ^ 32"
    using assms(2,3) clear [of h] idx by simp
  ultimately have "unat (setSubHalIndex h idx) = unat h + 2 ^ 24 * unat idx"
    using idx by (simp add: push_bit_eq_mult unat_word_ariths mult.commute)
  then have "uint (setSubHalIndex h idx) = uint h + 2 ^ 24 * uint idx"
    by (metis of_nat_add of_nat_mult of_nat_numeral of_nat_power uint_nat)
  moreover have "extractSubHalIndex k = of_int (sint k div 2 ^ 24)"
  proof -
    have "extractSubHalIndex k = of_int (sint (signed_drop_bit 24 k))"
      by (simp only: extractSubHalIndex_def kBitsAfterSubHalIndex_def of_int_sint)
    then show ?thesis by (simp only: sint_signed_drop_bit_eq drop_bit_eq_div)
  qed
  ultimately show ?thesis
    using clear [of k] mod [of k] by (simp add: clear_eq_take_bit [OF assms(1)])
qed

theorem handle_operations_arithmetic_witness:
  "uint (setSubHalIndex 7 200) = uint (7 :: i32) + 2 ^ 24 * uint (200 :: size_t)
   \<and> extractSubHalIndex 0xC8000007 = of_int (sint (0xC8000007 :: i32) div 2 ^ 24)"
proof -
  have "mask_is_first_byte example_consts" "subHalIndexIsClear example_consts 7" "unat (200 :: size_t) < 256"
    by simp_all
  from handle_operations_arithmetic [OF this, of "0xC8000007"] show ?thesis by blast
qed

text \<open>
  The byte is read back as a signed number.  An index from 128 to 255, which also fits
  into the first byte, comes back as a number of at least \<open>2^64 - 128\<close>, which no list of
  sub-HALs is long enough to make a valid index.
\<close>

lemma handle_high_index_lost:
  assumes "mask_is_first_byte K" and "subHalIndexIsClear K h"
    and "128 \<le> unat idx" and "unat idx < 256"
  shows "2 ^ 64 - 128 \<le> unat (extractSubHalIndex (setSubHalIndex h idx))"
proof -
  have "NOT (mask 7) \<le> extractSubHalIndex (setSubHalIndex h idx)"
    using assms by (intro extract_set_high size_t_bit_7) (simp_all add: isClear_iff_take_bit)
  then have "unat (NOT (mask 7) :: size_t) \<le> unat (extractSubHalIndex (setSubHalIndex h idx))"
    by (simp add: word_le_nat_alt)
  then show ?thesis by (simp add: mask_eq_exp_minus_1)
qed

end
