(* ===== verification/Wakelock.thy ===== *)
theory Wakelock
  imports Sensor_Types
begin

text \<open>
  The shared wake lock of \<open>HalProxy.cpp\<close>: a reference count of the wake-up events that
  the framework has not processed yet, the kernel wake lock that is held while the count
  is positive, and the thread that waits for the framework's acknowledgements.

  Times are nanoseconds of \<open>getTimeNow\<close>, an input of every operation that reads the
  clock; they stay far below the range of \<open>int64_t\<close> and are integers here.  The count is a
  \<open>size_t\<close>.  Every function runs under \<open>mWakelockMutex\<close>, so it is one step; the thread
  gives the mutex up while it waits and while it reads, so one turn of its loop is two.
\<close>

subsection \<open>State\<close>

record wakelock_state =
  mThreadsRun :: bool
  mWakelockRefCount :: size_t
  mWakelockTimeoutStartTime :: int
  mWakelockTimeoutResetTime :: int
  calls :: "ext_call list"

definition emit :: "ext_call list \<Rightarrow> 'a wakelock_state_scheme \<Rightarrow> 'a wakelock_state_scheme" where
  "emit cs s = s\<lparr>calls := calls s @ cs\<rparr>"

subsection \<open>Operations\<close>

text \<open>
  The result is \<open>None\<close> for \<open>false\<close>, and for \<open>true\<close> the value stored through
  \<open>timeoutStart\<close>, which a caller that passes no pointer ignores.
\<close>

definition incrementRefCountAndMaybeAcquireWakelock ::
    "size_t \<Rightarrow> int \<Rightarrow> 'a wakelock_state_scheme \<Rightarrow> int option \<times> 'a wakelock_state_scheme" where
  "incrementRefCountAndMaybeAcquireWakelock delta now s =
     (if \<not> mThreadsRun s then (None, s)
      else
        let s = (if mWakelockRefCount s = 0
                 then emit [ACQUIRE_WAKE_LOCK, NOTIFY_WAKELOCK_CV] s else s);
            s = s\<lparr>mWakelockTimeoutStartTime := now\<rparr>;
            s = s\<lparr>mWakelockRefCount := mWakelockRefCount s + delta\<rparr>
        in (Some (mWakelockTimeoutStartTime s), s))"

definition decrementRefCountAndMaybeReleaseWakelock ::
    "size_t \<Rightarrow> int \<Rightarrow> 'a wakelock_state_scheme \<Rightarrow> 'a wakelock_state_scheme" where
  "decrementRefCountAndMaybeReleaseWakelock delta timeoutStart s =
     (if \<not> mThreadsRun s then s
      else
        let timeoutStart = (if timeoutStart = - 1 then mWakelockTimeoutResetTime s
                            else timeoutStart)
        in if mWakelockRefCount s = 0 \<or> timeoutStart < mWakelockTimeoutResetTime s then s
           else
             let s = s\<lparr>mWakelockRefCount :=
                         mWakelockRefCount s - min (mWakelockRefCount s) delta\<rparr>
             in if mWakelockRefCount s = 0 then emit [RELEASE_WAKE_LOCK] s else s)"

text \<open>\<open>sharedWakelockDidTimeout\<close>: \<open>None\<close> for \<open>true\<close>, and for \<open>false\<close> the time left.\<close>

definition sharedWakelockDidTimeout :: "hal_consts \<Rightarrow> int \<Rightarrow> 'a wakelock_state_scheme \<Rightarrow> int option" where
  "sharedWakelockDidTimeout K now s =
     (let duration = now - mWakelockTimeoutStartTime s
      in if kWakelockTimeoutNs K < duration then None
         else Some (kWakelockTimeoutNs K - duration))"

definition resetSharedWakelock :: "int \<Rightarrow> 'a wakelock_state_scheme \<Rightarrow> 'a wakelock_state_scheme" where
  "resetSharedWakelock now s =
     (let s = decrementRefCountAndMaybeReleaseWakelock (mWakelockRefCount s) (- 1) s
      in s\<lparr>mWakelockTimeoutResetTime := now\<rparr>)"

subsection \<open>The wake lock thread\<close>

text \<open>
  The thread is waiting on its condition variable, or reading the framework's queue with
  the mutex released and a time limit, or has left its loop.
\<close>

datatype wakelock_pc = WL_WAITING | WL_READING int | WL_STOPPED

definition wakelock_wait_ready :: "'a wakelock_state_scheme \<Rightarrow> bool" where
  "wakelock_wait_ready s \<longleftrightarrow> 0 < mWakelockRefCount s \<or> \<not> mThreadsRun s"

text \<open>
  From the end of the wait to the release of the mutex: the clock is read once to look for
  a timeout and once more by the reset.
\<close>

definition handleWakelocks_check ::
    "hal_consts \<Rightarrow> int \<Rightarrow> int \<Rightarrow> 'a wakelock_state_scheme \<Rightarrow> 'a wakelock_state_scheme \<times> wakelock_pc" where
  "handleWakelocks_check K now now_reset s =
     (if mThreadsRun s then
        (case sharedWakelockDidTimeout K now s of
           None \<Rightarrow> (resetSharedWakelock now_reset s, WL_WAITING)
         | Some timeLeft \<Rightarrow> (s, WL_READING timeLeft))
      else (resetSharedWakelock now_reset s, WL_STOPPED))"

text \<open>After \<open>readBlocking\<close>: the number of processed wake-up events, if it succeeded.\<close>

definition handleWakelocks_read :: "u32 option \<Rightarrow> 'a wakelock_state_scheme \<Rightarrow> 'a wakelock_state_scheme" where
  "handleWakelocks_read numWakeLocksProcessed s =
     (case numWakeLocksProcessed of
        Some n \<Rightarrow> decrementRefCountAndMaybeReleaseWakelock (ucast n) (- 1) s
      | None \<Rightarrow> s)"

subsection \<open>What the operations leave alone\<close>

lemmas wakelock_defs =
  emit_def incrementRefCountAndMaybeAcquireWakelock_def
  decrementRefCountAndMaybeReleaseWakelock_def resetSharedWakelock_def Let_def

lemma emit_sel [simp]:
  "mThreadsRun (emit cs s) = mThreadsRun s"
  "mWakelockRefCount (emit cs s) = mWakelockRefCount s"
  "mWakelockTimeoutStartTime (emit cs s) = mWakelockTimeoutStartTime s"
  "mWakelockTimeoutResetTime (emit cs s) = mWakelockTimeoutResetTime s"
  "calls (emit cs s) = calls s @ cs"
  "wakelock_state.more (emit cs s) = wakelock_state.more s"
  by (simp_all add: emit_def)

lemma increment_frame [simp, frame_simps]:
  "mThreadsRun (snd (incrementRefCountAndMaybeAcquireWakelock d t s)) = mThreadsRun s"
  "mWakelockTimeoutResetTime (snd (incrementRefCountAndMaybeAcquireWakelock d t s))
     = mWakelockTimeoutResetTime s"
  "wakelock_state.more (snd (incrementRefCountAndMaybeAcquireWakelock d t s)) = wakelock_state.more s"
  by (simp_all add: wakelock_defs)

lemma decrement_frame [simp, frame_simps]:
  "mThreadsRun (decrementRefCountAndMaybeReleaseWakelock d t s) = mThreadsRun s"
  "mWakelockTimeoutStartTime (decrementRefCountAndMaybeReleaseWakelock d t s)
     = mWakelockTimeoutStartTime s"
  "mWakelockTimeoutResetTime (decrementRefCountAndMaybeReleaseWakelock d t s)
     = mWakelockTimeoutResetTime s"
  "wakelock_state.more (decrementRefCountAndMaybeReleaseWakelock d t s) = wakelock_state.more s"
  by (simp_all add: wakelock_defs)

lemma reset_frame [simp, frame_simps]:
  "mThreadsRun (resetSharedWakelock t s) = mThreadsRun s"
  "mWakelockTimeoutStartTime (resetSharedWakelock t s) = mWakelockTimeoutStartTime s"
  "wakelock_state.more (resetSharedWakelock t s) = wakelock_state.more s"
  by (simp_all add: wakelock_defs)

lemma read_frame [simp, frame_simps]:
  "mThreadsRun (handleWakelocks_read r s) = mThreadsRun s"
  "wakelock_state.more (handleWakelocks_read r s) = wakelock_state.more s"
  by (simp_all add: handleWakelocks_read_def split: option.splits)

lemma check_frame [simp, frame_simps]:
  "mThreadsRun (fst (handleWakelocks_check K t t' s)) = mThreadsRun s"
  "wakelock_state.more (fst (handleWakelocks_check K t t' s)) = wakelock_state.more s"
  by (simp_all add: handleWakelocks_check_def split: option.splits)

lemma stopped_no_effect [simp]:
  assumes "\<not> mThreadsRun s"
  shows "incrementRefCountAndMaybeAcquireWakelock d t s = (None, s)"
    and "decrementRefCountAndMaybeReleaseWakelock d t s = s"
  using assms
  by (simp_all add: incrementRefCountAndMaybeAcquireWakelock_def
      decrementRefCountAndMaybeReleaseWakelock_def)

text \<open>No wake lock operation writes to the event queue.\<close>

lemma wakelock_written [simp, log_simps]:
  "written (calls (snd (incrementRefCountAndMaybeAcquireWakelock d t s))) = written (calls s)"
  "written (calls (decrementRefCountAndMaybeReleaseWakelock d t s)) = written (calls s)"
  "written (calls (resetSharedWakelock t s)) = written (calls s)"
  "written (calls (handleWakelocks_read r s)) = written (calls s)"
  "written (calls (fst (handleWakelocks_check K t t' s))) = written (calls s)"
  by (simp_all add: wakelock_defs handleWakelocks_read_def handleWakelocks_check_def
      split: option.splits)

subsection \<open>The interface: a reference counter\<close>

text \<open>
  A history of calls: increments and decrements, each with its amount and time, the running
  total they should have, and their effect on a state.
\<close>

type_synonym count_call = "bool \<times> size_t \<times> int"

fun running_total :: "nat \<Rightarrow> count_call list \<Rightarrow> nat option" where
  "running_total n [] = Some n"
| "running_total n ((up, d, t) # xs) =
     (if up then (if n + unat d < 2 ^ 64 then running_total (n + unat d) xs else None)
      else (if unat d \<le> n then running_total (n - unat d) xs else None))"

fun apply_calls ::
    "(size_t \<Rightarrow> int \<Rightarrow> 's \<Rightarrow> 's) \<Rightarrow> (size_t \<Rightarrow> int \<Rightarrow> 's \<Rightarrow> 's) \<Rightarrow> count_call list \<Rightarrow> 's \<Rightarrow> 's" where
  "apply_calls inc dec [] s = s"
| "apply_calls inc dec ((up, d, t) # xs) s =
     apply_calls inc dec xs (if up then inc d t s else dec d t s)"

text \<open>
  \<open>IScopedWakelockRefCounter\<close>, the interface behind which the proxy hands its counter to
  the scoped wake locks of the sub-HALs.  A decrement carries the time of the increment it
  undoes; it is fresh if the counter has not been reset since.
\<close>

locale ref_counter =
  fixes inc :: "size_t \<Rightarrow> int \<Rightarrow> 's \<Rightarrow> 's"
    and dec :: "size_t \<Rightarrow> int \<Rightarrow> 's \<Rightarrow> 's"
    and count :: "'s \<Rightarrow> size_t"
    and live :: "'s \<Rightarrow> bool"
    and fresh :: "'s \<Rightarrow> int \<Rightarrow> bool"
  assumes count_inc: "live s \<Longrightarrow> count (inc d t s) = count s + d"
    and count_dec: "live s \<Longrightarrow> fresh s t \<Longrightarrow> count (dec d t s) = count s - min (count s) d"
    and dec_stale: "live s \<Longrightarrow> \<not> fresh s t \<Longrightarrow> dec d t s = s"
    and live_inc: "live (inc d t s) = live s"
    and live_dec: "live (dec d t s) = live s"
    and fresh_inc: "fresh (inc d t s) = fresh s"
    and fresh_dec: "fresh (dec d t s) = fresh s"
begin

text \<open>
  Whatever the order of the calls: as long as no call takes back more than is there, and the
  count fits its type, it is the sum of the increments less the sum of the decrements.
\<close>

lemma count_run:
  assumes "live s" and "\<forall>(up, d, t) \<in> set xs. \<not> up \<longrightarrow> fresh s t"
    and "running_total (unat (count s)) xs = Some n"
  shows "unat (count (apply_calls inc dec xs s)) = n"
  using assms
proof (induction xs arbitrary: s)
  case (Cons x xs)
  obtain up d t where x: "x = (up, d, t)" by (cases x)
  let ?s = "if up then inc d t s else dec d t s"
  have "unat (count ?s) = (if up then unat (count s) + unat d else unat (count s) - unat d)"
    using Cons.prems
    by (auto simp: x count_inc count_dec unat_add_small unat_sub_small min_def word_le_nat_alt
        split: if_splits)
  then have "running_total (unat (count ?s)) xs = Some n"
    using Cons.prems(3) by (auto simp: x split: if_splits)
  moreover have "live ?s" using Cons.prems(1) by (simp add: live_inc live_dec)
  moreover have "\<forall>(up, d, t) \<in> set xs. \<not> up \<longrightarrow> fresh ?s t"
    using Cons.prems(2) by (auto simp: fresh_inc fresh_dec)
  ultimately have "unat (count (apply_calls inc dec xs ?s)) = n" by (intro Cons.IH)
  then show ?case by (simp add: x)
qed simp

end

definition fresh_since_reset :: "'a wakelock_state_scheme \<Rightarrow> int \<Rightarrow> bool" where
  "fresh_since_reset s t \<longleftrightarrow> t = - 1 \<or> mWakelockTimeoutResetTime s \<le> t"

lemma count_decrement:
  assumes "mThreadsRun s" and "fresh_since_reset s t"
  shows "mWakelockRefCount (decrementRefCountAndMaybeReleaseWakelock d t s)
       = mWakelockRefCount s - min (mWakelockRefCount s) d"
  using assms by (auto simp: wakelock_defs fresh_since_reset_def)

interpretation wakelock: ref_counter
  "\<lambda>d t s. snd (incrementRefCountAndMaybeAcquireWakelock d t s)"
  decrementRefCountAndMaybeReleaseWakelock mWakelockRefCount mThreadsRun fresh_since_reset
proof
  fix d t and s :: "'a wakelock_state_scheme"
  show "mThreadsRun s \<Longrightarrow>
      mWakelockRefCount (snd (incrementRefCountAndMaybeAcquireWakelock d t s))
        = mWakelockRefCount s + d"
    by (simp add: wakelock_defs)
  show "mThreadsRun s \<Longrightarrow> \<not> fresh_since_reset s t \<Longrightarrow>
      decrementRefCountAndMaybeReleaseWakelock d t s = s"
    by (simp add: wakelock_defs fresh_since_reset_def)
qed (simp_all add: count_decrement fresh_since_reset_def fun_eq_iff)

subsection \<open>The kernel lock follows the count\<close>

definition lock_inv :: "'a wakelock_state_scheme \<Rightarrow> bool" where
  "lock_inv s \<longleftrightarrow> (0 < mWakelockRefCount s \<longrightarrow> wakelock_held (calls s))"

lemma lock_inv_increment:
  "lock_inv s \<Longrightarrow> lock_inv (snd (incrementRefCountAndMaybeAcquireWakelock d t s))"
  by (auto simp: lock_inv_def wakelock_defs wakelock_held_def word_gt_0)

lemma lock_inv_decrement: "lock_inv s \<Longrightarrow> lock_inv (decrementRefCountAndMaybeReleaseWakelock d t s)"
  by (auto simp: lock_inv_def wakelock_defs wakelock_held_def word_gt_0)

lemma lock_inv_reset: "lock_inv s \<Longrightarrow> lock_inv (resetSharedWakelock t s)"
  using lock_inv_decrement [of s]
  by (simp add: resetSharedWakelock_def Let_def lock_inv_def)

lemma lock_inv_read: "lock_inv s \<Longrightarrow> lock_inv (handleWakelocks_read r s)"
  by (simp add: handleWakelocks_read_def lock_inv_decrement split: option.splits)

lemma lock_inv_check: "lock_inv s \<Longrightarrow> lock_inv (fst (handleWakelocks_check K t t' s))"
  by (simp add: handleWakelocks_check_def lock_inv_reset split: option.splits)

lemmas lock_inv_ops =
  lock_inv_increment lock_inv_decrement lock_inv_reset lock_inv_read lock_inv_check

text \<open>The converse needs increments that count something and a count that fits its type.\<close>

definition lock_exact :: "'a wakelock_state_scheme \<Rightarrow> bool" where
  "lock_exact s \<longleftrightarrow> (wakelock_held (calls s) \<longleftrightarrow> 0 < mWakelockRefCount s)"

lemma lock_exact_increment:
  assumes "lock_exact s" and "0 < d" and "unat (mWakelockRefCount s) + unat d < 2 ^ 64"
  shows "lock_exact (snd (incrementRefCountAndMaybeAcquireWakelock d t s))"
proof -
  have "0 < unat (mWakelockRefCount s + d)"
    using assms(2,3) by (simp add: unat_add_small unat_gt_0 word_gt_0)
  then have "0 < mWakelockRefCount s + d" by (simp add: unat_gt_0 word_gt_0)
  with assms show ?thesis
    by (auto simp: lock_exact_def wakelock_defs wakelock_held_def word_gt_0)
qed

lemma lock_exact_decrement:
  "lock_exact s \<Longrightarrow> lock_exact (decrementRefCountAndMaybeReleaseWakelock d t s)"
  by (auto simp: lock_exact_def wakelock_defs wakelock_held_def word_gt_0)

lemma lock_exact_reset: "lock_exact s \<Longrightarrow> lock_exact (resetSharedWakelock t s)"
  using lock_exact_decrement [of s]
  by (simp add: resetSharedWakelock_def Let_def lock_exact_def)

lemma lock_exact_read: "lock_exact s \<Longrightarrow> lock_exact (handleWakelocks_read r s)"
  by (simp add: handleWakelocks_read_def lock_exact_decrement split: option.splits)

lemma lock_exact_check: "lock_exact s \<Longrightarrow> lock_exact (fst (handleWakelocks_check K t t' s))"
  by (simp add: handleWakelocks_check_def lock_exact_reset split: option.splits)

lemmas lock_exact_ops =
  lock_exact_increment lock_exact_decrement lock_exact_reset lock_exact_read lock_exact_check

subsection \<open>Properties\<close>

text \<open>
  The reference count is exact.  For every sequence of increments and decrements by
  running code, in any interleaving, in which no decrement is older than the last reset,
  none takes back more than is counted and the count fits its type, the count at the end
  is the sum of the increments less the sum of the decrements.
\<close>

lemma wakelock_count_exact:
  assumes "mThreadsRun s"
    and "\<forall>(up, d, t) \<in> set xs. \<not> up \<longrightarrow> t = - 1 \<or> mWakelockTimeoutResetTime s \<le> t"
    and "running_total (unat (mWakelockRefCount s)) xs = Some n"
  shows "unat (mWakelockRefCount (apply_calls
            (\<lambda>d t s. snd (incrementRefCountAndMaybeAcquireWakelock d t s))
            decrementRefCountAndMaybeReleaseWakelock xs s)) = n"
  using assms by (intro wakelock.count_run) (simp_all add: fresh_since_reset_def)

text \<open>
  A decrement that is not older than the last reset lowers a positive count by the
  requested amount, stopping at zero, and gives the kernel lock back exactly when it
  reaches zero.
\<close>

lemma decrement_releases_at_zero:
  assumes "mThreadsRun s" and "0 < mWakelockRefCount s"
    and "t = - 1 \<or> mWakelockTimeoutResetTime s \<le> t"
  shows "unat (mWakelockRefCount (decrementRefCountAndMaybeReleaseWakelock d t s))
           = unat (mWakelockRefCount s) - unat d
       \<and> calls (decrementRefCountAndMaybeReleaseWakelock d t s)
           = calls s @ (if mWakelockRefCount s \<le> d then [RELEASE_WAKE_LOCK] else [])"
proof -
  let ?c = "mWakelockRefCount s"
  have fresh: "\<not> (if t = - 1 then mWakelockTimeoutResetTime s else t) < mWakelockTimeoutResetTime s"
    using assms(3) by auto
  show ?thesis
  proof (cases "?c \<le> d")
    case True
    then have "unat ?c \<le> unat d" by (simp add: word_le_nat_alt)
    with True assms(1,2) fresh show ?thesis by (simp add: wakelock_defs word_gt_0 min_def)
  next
    case False
    then have "unat (?c - d) = unat ?c - unat d" and "?c \<noteq> d"
      by (auto simp: unat_sub_small word_le_nat_alt)
    with False assms(1,2) fresh show ?thesis by (simp add: wakelock_defs word_gt_0 min_def)
  qed
qed

text \<open>
  After a reset, the decrements of the scoped wake locks that were created before it
  have no effect, so nobody gives back what the reset has already given back.
\<close>

lemma stale_decrement_ignored:
  assumes "t \<noteq> - 1" and "t < now"
  shows "decrementRefCountAndMaybeReleaseWakelock d t (resetSharedWakelock now s)
       = resetSharedWakelock now s"
  using assms by (simp add: decrementRefCountAndMaybeReleaseWakelock_def resetSharedWakelock_def
      Let_def)

text \<open>
  A wake lock nobody acknowledges does not last: once the time limit has passed since
  the last increment, the next turn of the wake lock thread sets the count to zero, gives
  the kernel lock back and goes back to waiting.
\<close>

lemma timed_out_lock_released:
  assumes "mThreadsRun s" and "0 < mWakelockRefCount s"
    and "kWakelockTimeoutNs K < now - mWakelockTimeoutStartTime s"
  shows "mWakelockRefCount (fst (handleWakelocks_check K now now' s)) = 0
       \<and> calls (fst (handleWakelocks_check K now now' s)) = calls s @ [RELEASE_WAKE_LOCK]
       \<and> snd (handleWakelocks_check K now now' s) = WL_WAITING"
  using assms
  by (simp add: handleWakelocks_check_def sharedWakelockDidTimeout_def wakelock_defs word_gt_0)

text \<open>
  When the threads have been told to stop, the reset that the wake lock thread runs on
  its way out, and the one of \<open>initializeCommon\<close>, change neither the count nor the kernel
  lock, because the decrement they rely on returns early: a lock that was held stays held.
\<close>

lemma stopping_leaves_lock_held:
  assumes "\<not> mThreadsRun s"
  shows "mWakelockRefCount (fst (handleWakelocks_check K now now' s)) = mWakelockRefCount s
       \<and> calls (fst (handleWakelocks_check K now now' s)) = calls s
       \<and> snd (handleWakelocks_check K now now' s) = WL_STOPPED
       \<and> resetSharedWakelock now' s = s\<lparr>mWakelockTimeoutResetTime := now'\<rparr>"
  using assms by (simp add: handleWakelocks_check_def resetSharedWakelock_def)

end
