(* ===== verification/Sensor_Map.thy ===== *)
theory Sensor_Map
  imports Sensor_Types
begin

text \<open>
  \<open>std::map\<close> with \<open>int32_t\<close> keys, as \<open>mSensors\<close> and \<open>mDynamicSensors\<close> use it: a list of
  entries in the order of the keys, which is the order of iteration.  The operations are
  \<open>m[k] = v\<close>, \<open>find\<close>, \<open>erase\<close> and the reading \<open>m[k]\<close>, which stores a default value when
  the key is missing.
\<close>

subsection \<open>Operations\<close>

type_synonym 'v i32_map = "(i32 \<times> 'v) list"

fun map_assign :: "i32 \<Rightarrow> 'v \<Rightarrow> 'v i32_map \<Rightarrow> 'v i32_map" where
  "map_assign k v [] = [(k, v)]"
| "map_assign k v ((k', v') # m) =
     (if sint k < sint k' then (k, v) # (k', v') # m
      else if k = k' then (k, v) # m
      else (k', v') # map_assign k v m)"

fun map_find :: "'v i32_map \<Rightarrow> i32 \<Rightarrow> 'v option" where
  "map_find [] k = None"
| "map_find ((k', v') # m) k = (if k = k' then Some v' else map_find m k)"

fun map_erase :: "i32 \<Rightarrow> 'v i32_map \<Rightarrow> 'v i32_map" where
  "map_erase k [] = []"
| "map_erase k ((k', v') # m) = (if k = k' then m else (k', v') # map_erase k m)"

text \<open>\<open>m[k]\<close> as an expression: the value, and the map it leaves behind.\<close>

definition map_at :: "'v \<Rightarrow> i32 \<Rightarrow> 'v i32_map \<Rightarrow> 'v \<times> 'v i32_map" where
  "map_at d k m =
     (case map_find m k of Some v \<Rightarrow> (v, m) | None \<Rightarrow> (d, map_assign k d m))"

definition map_keys :: "'v i32_map \<Rightarrow> i32 list" where
  "map_keys m = map fst m"

definition map_sorted :: "'v i32_map \<Rightarrow> bool" where
  "map_sorted m \<longleftrightarrow> sorted_wrt (\<lambda>a b. sint a < sint b) (map_keys m)"

subsection \<open>Order\<close>

lemma map_sorted_Nil [simp]: "map_sorted []"
  by (simp add: map_sorted_def map_keys_def)

lemma map_sorted_Cons:
  "map_sorted ((k, v) # m) \<longleftrightarrow> (\<forall>k' \<in> fst ` set m. sint k < sint k') \<and> map_sorted m"
  by (auto simp: map_sorted_def map_keys_def)

lemma keys_assign: "fst ` set (map_assign k v m) = insert k (fst ` set m)"
  by (induction m rule: map_assign.induct) auto

lemma keys_erase_subset: "fst ` set (map_erase k m) \<subseteq> fst ` set m"
  by (induction k m rule: map_erase.induct) auto

lemma sint_cases:
  fixes k k' :: i32
  obtains "sint k < sint k'" | "k = k'" | "sint k' < sint k"
  by (metis linorder_less_linear signed_word_eqI)

lemma sorted_assign: "map_sorted m \<Longrightarrow> map_sorted (map_assign k v m)"
proof (induction k v m rule: map_assign.induct)
  case (2 k v k' v' m)
  consider "sint k < sint k'" | "k = k'" | "sint k' < sint k" by (rule sint_cases)
  then show ?case
  proof cases
    case 1
    with "2.prems" show ?thesis by (force simp: map_sorted_Cons)
  next
    case 2
    with "2.prems" show ?thesis by (simp add: map_sorted_Cons)
  next
    case 3
    then have "k \<noteq> k'" and "\<not> sint k < sint k'" by auto
    with 3 "2.prems" "2.IH" show ?thesis by (auto simp: map_sorted_Cons keys_assign)
  qed
qed (simp add: map_sorted_def map_keys_def)

lemma sorted_erase: "map_sorted m \<Longrightarrow> map_sorted (map_erase k m)"
  using keys_erase_subset by (induction k m rule: map_erase.induct) (fastforce simp: map_sorted_Cons)+

lemma sorted_distinct: "map_sorted m \<Longrightarrow> distinct (map_keys m)"
  by (induction m) (auto simp: map_keys_def map_sorted_def)

subsection \<open>Lookup\<close>

lemma map_find_None_iff: "map_find m k = None \<longleftrightarrow> k \<notin> fst ` set m"
  by (induction m k rule: map_find.induct) auto

lemma find_Some_in: "map_find m k = Some v \<Longrightarrow> (k, v) \<in> set m"
  by (induction m k rule: map_find.induct) (auto split: if_splits)

lemma find_iff_in: "map_sorted m \<Longrightarrow> map_find m k = Some v \<longleftrightarrow> (k, v) \<in> set m"
proof (induction m k rule: map_find.induct)
  case (2 k' v' m k)
  then show ?case by (force simp: map_sorted_Cons)
qed simp

lemma find_assign: "map_find (map_assign k v m) j = (if j = k then Some v else map_find m j)"
  by (induction k v m rule: map_assign.induct) auto

lemma find_erase: "map_sorted m \<Longrightarrow> map_find (map_erase k m) j = (if j = k then None else map_find m j)"
proof (induction k m rule: map_erase.induct)
  case (2 k k' v' m)
  show ?case
  proof (cases "k = k'")
    case True
    with "2.prems" have "map_find m k = None" by (auto simp: map_sorted_Cons map_find_None_iff)
    with True show ?thesis by auto
  next
    case False
    with 2 show ?thesis by (auto simp: map_sorted_Cons)
  qed
qed simp

subsection \<open>The interface of a map\<close>

locale i32_map =
  fixes empty :: "'m"
    and assign :: "i32 \<Rightarrow> 'v \<Rightarrow> 'm \<Rightarrow> 'm"
    and erase :: "i32 \<Rightarrow> 'm \<Rightarrow> 'm"
    and find :: "'m \<Rightarrow> i32 \<Rightarrow> 'v option"
    and invar :: "'m \<Rightarrow> bool"
  assumes find_empty: "find empty k = None"
    and find_after_assign: "invar m \<Longrightarrow> find (assign k v m) j = (if j = k then Some v else find m j)"
    and find_after_erase: "invar m \<Longrightarrow> find (erase k m) j = (if j = k then None else find m j)"
    and invar_empty: "invar empty"
    and invar_assign: "invar m \<Longrightarrow> invar (assign k v m)"
    and invar_erase: "invar m \<Longrightarrow> invar (erase k m)"
begin

text \<open>Every entry is filed under its own key, if this holds at the start.\<close>

definition filed :: "('v \<Rightarrow> i32) \<Rightarrow> 'm \<Rightarrow> bool" where
  "filed key m \<longleftrightarrow> (\<forall>k v. find m k = Some v \<longrightarrow> key v = k)"

lemma filed_empty: "filed key empty"
  by (simp add: filed_def find_empty)

lemma filed_assign: "invar m \<Longrightarrow> filed key m \<Longrightarrow> filed key (assign (key v) v m)"
  by (auto simp: filed_def find_after_assign)

lemma filed_erase: "invar m \<Longrightarrow> filed key m \<Longrightarrow> filed key (erase k m)"
  by (auto simp: filed_def find_after_erase)

end

interpretation sensor_map: i32_map "[]" map_assign map_erase map_find map_sorted
  by unfold_locales (simp_all add: find_assign find_erase sorted_assign sorted_erase)

end
