(* ===== verification/Event_Delivery.thy ===== *)
theory Event_Delivery
  imports Wakelock Sensor_Map
begin

text \<open>
  The way of an event from a sub-HAL to the framework in \<open>HalProxy.cpp\<close>:
  \<open>postEventsToMessageQueue\<close> writes what fits into the shared event queue and keeps the
  rest in \<open>mPendingWriteEventsQueue\<close>; the pending writes thread moves it from there to the
  event queue in pieces of at most the queue's capacity.

  The event queue (FMQ) is outside the repository: how much it can take, and whether a
  write succeeds, are inputs of the operations.  A write that succeeds takes all the events
  it was given, one that fails takes none.  \<open>AlsCorrection::process\<close> is a parameter
  \<open>process\<close> of this theory, with its own state; the theory \<open>Als_Correction\<close> provides it.
\<close>

subsection \<open>State\<close>

record 'a delivery_state = wakelock_state +
  mSensors :: "sensor_info i32_map"
  mPendingWriteEventsQueue :: "(event list \<times> size_t) list"
  mSizePendingWriteEventsQueue :: size_t
  mMostEventsObservedPendingWriteEventsQueue :: size_t
  als_world :: 'a

text \<open>What \<open>postEventsToMessageQueue\<close> finds outside: the clock and the event queue.\<close>

record post_env =
  post_now :: int
  availableToWrite :: nat
  write_succeeds :: bool

subsection \<open>Posting events\<close>

fun correct_events ::
    "(event \<Rightarrow> 'a \<Rightarrow> event \<times> 'a) \<Rightarrow> event list \<Rightarrow> 'a \<Rightarrow> event list \<times> 'a" where
  "correct_events process [] w = ([], w)"
| "correct_events process (e # es) w =
     (let (e, w) = (if sensorType e = SENSOR_TYPE_QTI_WISE_LIGHT then process e w else (e, w));
          (es, w) = correct_events process es w
      in (e # es, w))"

text \<open>The write to the event queue, which is tried only when nothing is pending.\<close>

definition write_now :: "post_env \<Rightarrow> event list \<Rightarrow> ('a, 'z) delivery_state_scheme
    \<Rightarrow> nat \<times> ('a, 'z) delivery_state_scheme" where
  "write_now env events s =
     (if mPendingWriteEventsQueue s = [] then
        let numToWrite = min (length events) (availableToWrite env)
        in if 0 < numToWrite then
             (if write_succeeds env
              then (numToWrite, emit [FMQ_WRITE (take numToWrite events), WAKE_READ_AND_PROCESS] s)
              else (0, s))
           else (numToWrite, s)
      else (0, s))"

text \<open>What was not written is kept if the pending events stay within their limit.\<close>

definition keep_pending :: "hal_consts \<Rightarrow> event list \<Rightarrow> size_t \<Rightarrow> nat
    \<Rightarrow> ('a, 'z) delivery_state_scheme \<Rightarrow> ('a, 'z) delivery_state_scheme" where
  "keep_pending K events numWakeupEvents numToWrite s =
     (let numLeft = length events - numToWrite
      in if numToWrite < length events
            \<and> mSizePendingWriteEventsQueue s + of_nat numLeft \<le> kMaxSizePendingWriteEventsQueue K
         then
           let s = s\<lparr>mPendingWriteEventsQueue :=
                       mPendingWriteEventsQueue s @ [(drop numToWrite events, numWakeupEvents)]\<rparr>;
               s = s\<lparr>mSizePendingWriteEventsQueue :=
                       mSizePendingWriteEventsQueue s + of_nat numLeft\<rparr>;
               s = s\<lparr>mMostEventsObservedPendingWriteEventsQueue :=
                       max (mMostEventsObservedPendingWriteEventsQueue s)
                           (mSizePendingWriteEventsQueue s)\<rparr>
           in emit [NOTIFY_EVENT_QUEUE_WRITE_CV] s
         else s)"

definition postEventsToMessageQueue ::
    "hal_consts \<Rightarrow> (event \<Rightarrow> 'a \<Rightarrow> event \<times> 'a) \<Rightarrow> post_env \<Rightarrow> event list \<Rightarrow> size_t \<Rightarrow> bool
     \<Rightarrow> ('a, 'z) delivery_state_scheme \<Rightarrow> ('a, 'z) delivery_state_scheme" where
  "postEventsToMessageQueue K process env eventsList numWakeupEvents wakelock_isLocked s =
     (let s = (if wakelock_isLocked
               then snd (incrementRefCountAndMaybeAcquireWakelock numWakeupEvents (post_now env) s)
               else s);
          (events, w) = correct_events process eventsList (als_world s);
          s = s\<lparr>als_world := w\<rparr>;
          (numToWrite, s) = write_now env events s
      in keep_pending K events numWakeupEvents numToWrite s)"

subsection \<open>The pending writes thread\<close>

text \<open>
  \<open>mSensors[sensorHandle]\<close> stores a default description for a handle it does not know, so
  counting changes the map.
\<close>

fun count_wakeups :: "hal_consts \<Rightarrow> event list \<Rightarrow> sensor_info i32_map \<Rightarrow> size_t \<times> sensor_info i32_map" where
  "count_wakeups K [] m = (0, m)"
| "count_wakeups K (e # es) m =
     (let (info, m) = map_at default_sensor_info (sensorHandle e) m;
          (n, m) = count_wakeups K es m
      in (if info_flags info AND WAKE_UP K \<noteq> 0 then n + 1 else n, m))"

text \<open>\<open>countNumWakeupEvents (events, n)\<close>; the code calls it with \<open>n\<close> below the length.\<close>

definition countNumWakeupEvents :: "hal_consts \<Rightarrow> event list \<Rightarrow> nat
    \<Rightarrow> ('a, 'z) delivery_state_scheme \<Rightarrow> size_t \<times> ('a, 'z) delivery_state_scheme" where
  "countNumWakeupEvents K events n s =
     (let (numWakeupEvents, m) = count_wakeups K (take n events) (mSensors s)
      in (numWakeupEvents, s\<lparr>mSensors := m\<rparr>))"

text \<open>
  The thread waits, or writes with the mutex released (it remembers the capacity of the
  event queue, the number of events to write and the recorded number of wake-up events), or
  has written and waits for the mutex, or has left its loop.
\<close>

datatype pending_pc = PW_WAITING | PW_WRITING nat nat size_t | PW_ERASING nat nat | PW_STOPPED

definition pending_wait_ready :: "('a, 'z) delivery_state_scheme \<Rightarrow> bool" where
  "pending_wait_ready s \<longleftrightarrow> mPendingWriteEventsQueue s \<noteq> [] \<or> \<not> mThreadsRun s"

text \<open>From the end of the wait to the release of the mutex.\<close>

definition handlePendingWrites_take :: "nat \<Rightarrow> ('a, 'z) delivery_state_scheme \<Rightarrow> pending_pc" where
  "handlePendingWrites_take eventQueueSize s =
     (if mThreadsRun s then
        (case mPendingWriteEventsQueue s of
           (pendingWriteEvents, numWakeupEvents) # _ \<Rightarrow>
             PW_WRITING eventQueueSize (min (length pendingWriteEvents) eventQueueSize) numWakeupEvents
         | [] \<Rightarrow> PW_WAITING)
      else PW_STOPPED)"

text \<open>
  The result of \<open>writeBlocking\<close>, still without the mutex.  The list that was taken is still
  the front of the queue, since the others only append.
\<close>

definition handlePendingWrites_written ::
    "hal_consts \<Rightarrow> nat \<Rightarrow> nat \<Rightarrow> size_t \<Rightarrow> bool
     \<Rightarrow> ('a, 'z) delivery_state_scheme \<Rightarrow> ('a, 'z) delivery_state_scheme" where
  "handlePendingWrites_written K eventQueueSize numToWrite numWakeupEvents written_ok s =
     (case mPendingWriteEventsQueue s of
        [] \<Rightarrow> s
      | (pendingWriteEvents, _) # _ \<Rightarrow>
          if written_ok then emit [FMQ_WRITE (take numToWrite pendingWriteEvents)] s
          else if 0 < numWakeupEvents then
            (if eventQueueSize < length pendingWriteEvents then
               let (n, s) = countNumWakeupEvents K pendingWriteEvents eventQueueSize s
               in decrementRefCountAndMaybeReleaseWakelock n (- 1) s
             else decrementRefCountAndMaybeReleaseWakelock numWakeupEvents (- 1) s)
          else s)"

text \<open>With the mutex again, to the end of the loop's body.\<close>

definition handlePendingWrites_erase ::
    "nat \<Rightarrow> nat \<Rightarrow> ('a, 'z) delivery_state_scheme \<Rightarrow> ('a, 'z) delivery_state_scheme" where
  "handlePendingWrites_erase eventQueueSize numToWrite s =
     (case mPendingWriteEventsQueue s of
        [] \<Rightarrow> s
      | (pendingWriteEvents, recorded) # rest \<Rightarrow>
          let s = s\<lparr>mSizePendingWriteEventsQueue :=
                      mSizePendingWriteEventsQueue s - of_nat numToWrite\<rparr>
          in if eventQueueSize < length pendingWriteEvents
             then s\<lparr>mPendingWriteEventsQueue := (drop eventQueueSize pendingWriteEvents, recorded) # rest\<rparr>
             else s\<lparr>mPendingWriteEventsQueue := rest\<rparr>)"

text \<open>Both, with nothing in between.\<close>

definition handlePendingWrites_finish ::
    "hal_consts \<Rightarrow> nat \<Rightarrow> nat \<Rightarrow> size_t \<Rightarrow> bool
     \<Rightarrow> ('a, 'z) delivery_state_scheme \<Rightarrow> ('a, 'z) delivery_state_scheme" where
  "handlePendingWrites_finish K eventQueueSize numToWrite numWakeupEvents written_ok s =
     handlePendingWrites_erase eventQueueSize numToWrite
       (handlePendingWrites_written K eventQueueSize numToWrite numWakeupEvents written_ok s)"

text \<open>One whole turn of the loop, with nothing in between.\<close>

definition handlePendingWrites_turn ::
    "hal_consts \<Rightarrow> nat \<Rightarrow> bool \<Rightarrow> ('a, 'z) delivery_state_scheme \<Rightarrow> ('a, 'z) delivery_state_scheme" where
  "handlePendingWrites_turn K eventQueueSize written_ok s =
     (case handlePendingWrites_take eventQueueSize s of
        PW_WRITING q n w \<Rightarrow> handlePendingWrites_finish K q n w written_ok s
      | _ \<Rightarrow> s)"

subsection \<open>What the operations leave alone\<close>

lemma emit_delivery [simp, frame_simps]:
  "mSensors (emit cs s) = mSensors s"
  "mPendingWriteEventsQueue (emit cs s) = mPendingWriteEventsQueue s"
  "mSizePendingWriteEventsQueue (emit cs s) = mSizePendingWriteEventsQueue s"
  "mMostEventsObservedPendingWriteEventsQueue (emit cs s) = mMostEventsObservedPendingWriteEventsQueue s"
  "als_world (emit cs s) = als_world s"
  by (simp_all add: emit_def)

lemma increment_delivery [simp, frame_simps]:
  fixes s :: "('a, 'z) delivery_state_scheme" and d t
  defines "s' \<equiv> snd (incrementRefCountAndMaybeAcquireWakelock d t s)"
  shows "mSensors s' = mSensors s"
    and "mPendingWriteEventsQueue s' = mPendingWriteEventsQueue s"
    and "mSizePendingWriteEventsQueue s' = mSizePendingWriteEventsQueue s"
    and "mMostEventsObservedPendingWriteEventsQueue s' = mMostEventsObservedPendingWriteEventsQueue s"
    and "als_world s' = als_world s"
  by (simp_all add: s'_def wakelock_defs)

lemma decrement_delivery [simp, frame_simps]:
  fixes s :: "('a, 'z) delivery_state_scheme" and d t
  defines "s' \<equiv> decrementRefCountAndMaybeReleaseWakelock d t s"
  shows "mSensors s' = mSensors s"
    and "mPendingWriteEventsQueue s' = mPendingWriteEventsQueue s"
    and "mSizePendingWriteEventsQueue s' = mSizePendingWriteEventsQueue s"
    and "mMostEventsObservedPendingWriteEventsQueue s' = mMostEventsObservedPendingWriteEventsQueue s"
    and "als_world s' = als_world s"
  by (simp_all add: s'_def wakelock_defs)

lemma reset_delivery [simp, frame_simps]:
  fixes s :: "('a, 'z) delivery_state_scheme" and t
  defines "s' \<equiv> resetSharedWakelock t s"
  shows "mSensors s' = mSensors s"
    and "mPendingWriteEventsQueue s' = mPendingWriteEventsQueue s"
    and "mSizePendingWriteEventsQueue s' = mSizePendingWriteEventsQueue s"
    and "mMostEventsObservedPendingWriteEventsQueue s' = mMostEventsObservedPendingWriteEventsQueue s"
    and "als_world s' = als_world s"
  by (simp_all add: s'_def resetSharedWakelock_def Let_def)

lemma check_delivery [simp, frame_simps]:
  fixes s :: "('a, 'z) delivery_state_scheme" and K t t'
  defines "s' \<equiv> fst (handleWakelocks_check K t t' s)"
  shows "mSensors s' = mSensors s"
    and "mPendingWriteEventsQueue s' = mPendingWriteEventsQueue s"
    and "mSizePendingWriteEventsQueue s' = mSizePendingWriteEventsQueue s"
    and "mMostEventsObservedPendingWriteEventsQueue s' = mMostEventsObservedPendingWriteEventsQueue s"
  by (simp_all add: s'_def handleWakelocks_check_def split: option.splits)

lemma read_delivery [simp, frame_simps]:
  fixes s :: "('a, 'z) delivery_state_scheme" and r
  defines "s' \<equiv> handleWakelocks_read r s"
  shows "mSensors s' = mSensors s"
    and "mPendingWriteEventsQueue s' = mPendingWriteEventsQueue s"
    and "mSizePendingWriteEventsQueue s' = mSizePendingWriteEventsQueue s"
    and "mMostEventsObservedPendingWriteEventsQueue s' = mMostEventsObservedPendingWriteEventsQueue s"
  by (simp_all add: s'_def handleWakelocks_read_def split: option.splits)

lemma length_correct_events [simp]: "length (fst (correct_events process es w)) = length es"
  by (induction es arbitrary: w) (simp_all add: Let_def case_prod_unfold)

lemma countNum_frame [simp, frame_simps]:
  fixes s :: "('a, 'z) delivery_state_scheme" and K es n
  defines "s' \<equiv> snd (countNumWakeupEvents K es n s)"
  shows "mThreadsRun s' = mThreadsRun s"
    and "mWakelockRefCount s' = mWakelockRefCount s"
    and "calls s' = calls s"
    and "mPendingWriteEventsQueue s' = mPendingWriteEventsQueue s"
    and "mSizePendingWriteEventsQueue s' = mSizePendingWriteEventsQueue s"
    and "mMostEventsObservedPendingWriteEventsQueue s' = mMostEventsObservedPendingWriteEventsQueue s"
  by (simp_all add: s'_def countNumWakeupEvents_def split: prod.splits)

subsection \<open>The pending events and their count\<close>

definition backlog :: "('a, 'z) delivery_state_scheme \<Rightarrow> event list" where
  "backlog s = concat (map fst (mPendingWriteEventsQueue s))"

text \<open>
  \<open>mSizePendingWriteEventsQueue\<close> counts the pending events and respects the limit, no
  entry of the queue is empty, and the high-water mark is above the count.
\<close>

definition delivery_inv :: "hal_consts \<Rightarrow> ('a, 'z) delivery_state_scheme \<Rightarrow> bool" where
  "delivery_inv K s \<longleftrightarrow>
     unat (mSizePendingWriteEventsQueue s) = length (backlog s)
     \<and> mSizePendingWriteEventsQueue s \<le> kMaxSizePendingWriteEventsQueue K
     \<and> (\<forall>(es, n) \<in> set (mPendingWriteEventsQueue s). es \<noteq> [])
     \<and> mSizePendingWriteEventsQueue s \<le> mMostEventsObservedPendingWriteEventsQueue s"

text \<open>
  The limit of the pending events, and the size of a \<open>std::vector\<close>, are below \<open>2^63\<close>; the
  sum the code compares with the limit then does not wrap around.
\<close>

definition limit_ok :: "hal_consts \<Rightarrow> bool" where
  "limit_ok K \<longleftrightarrow> unat (kMaxSizePendingWriteEventsQueue K) < 2 ^ 63"

definition vector_ok :: "event list \<Rightarrow> bool" where
  "vector_ok es \<longleftrightarrow> length es < 2 ^ 63"

lemma delivery_inv_cong:
  assumes "mPendingWriteEventsQueue s' = mPendingWriteEventsQueue s"
    and "mSizePendingWriteEventsQueue s' = mSizePendingWriteEventsQueue s"
    and "mMostEventsObservedPendingWriteEventsQueue s' = mMostEventsObservedPendingWriteEventsQueue s"
  shows "delivery_inv K s' = delivery_inv K s"
  by (simp add: delivery_inv_def backlog_def assms)

lemma backlog_cong:
  "mPendingWriteEventsQueue s' = mPendingWriteEventsQueue s \<Longrightarrow> backlog s' = backlog s"
  by (simp add: backlog_def)

lemma write_now_frame [simp, frame_simps]:
  fixes s :: "('a, 'z) delivery_state_scheme" and env events
  defines "s' \<equiv> snd (write_now env events s)"
  shows "mThreadsRun s' = mThreadsRun s"
    and "mWakelockRefCount s' = mWakelockRefCount s"
    and "mSensors s' = mSensors s"
    and "mPendingWriteEventsQueue s' = mPendingWriteEventsQueue s"
    and "mSizePendingWriteEventsQueue s' = mSizePendingWriteEventsQueue s"
    and "mMostEventsObservedPendingWriteEventsQueue s' = mMostEventsObservedPendingWriteEventsQueue s"
  by (simp_all add: s'_def write_now_def Let_def)

lemma write_now_le: "fst (write_now env events s) \<le> length events"
  by (simp add: write_now_def Let_def)

lemma unat_size_add:
  assumes "limit_ok K" and "m \<le> kMaxSizePendingWriteEventsQueue K" and "n < 2 ^ 63"
  shows "unat (m + of_nat n :: size_t) = unat m + n"
proof -
  have "unat m < 2 ^ 63"
    using assms(1,2) by (simp add: limit_ok_def word_le_nat_alt)
  with assms(3) have "unat m + unat (of_nat n :: size_t) < 2 ^ 64" by simp
  then have "unat (m + of_nat n) = unat m + unat (of_nat n :: size_t)" by (rule unat_add_small)
  with assms(3) show ?thesis by simp
qed

lemma keep_pending_inv:
  assumes "limit_ok K" and "vector_ok events" and inv: "delivery_inv K s"
  shows "delivery_inv K (keep_pending K events w n s)"
proof -
  have "unat (mSizePendingWriteEventsQueue s + of_nat (length events - n))
      = unat (mSizePendingWriteEventsQueue s) + (length events - n)"
    using assms by (intro unat_size_add) (auto simp: delivery_inv_def vector_ok_def)
  then show ?thesis
    using inv by (auto simp: keep_pending_def Let_def delivery_inv_def backlog_def)
qed

lemma post_inv:
  assumes "limit_ok K" and "vector_ok es" and "delivery_inv K s"
  shows "delivery_inv K (postEventsToMessageQueue K process env es w locked s)"
proof -
  let ?s = "if locked then snd (incrementRefCountAndMaybeAcquireWakelock w (post_now env) s) else s"
  obtain events a where ce: "correct_events process es (als_world ?s) = (events, a)"
    by fastforce
  obtain n s' where wn: "write_now env events (?s\<lparr>als_world := a\<rparr>) = (n, s')"
    by fastforce
  have "length events = length es"
    using length_correct_events [of process es "als_world ?s"] ce by simp
  moreover have "delivery_inv K s' = delivery_inv K s"
    using write_now_frame [of env events "?s\<lparr>als_world := a\<rparr>"] wn
    by (intro delivery_inv_cong) simp_all
  ultimately have "delivery_inv K (keep_pending K events w n s')"
    using assms by (intro keep_pending_inv) (simp_all add: vector_ok_def)
  then show ?thesis
    using ce wn by (simp add: postEventsToMessageQueue_def Let_def)
qed

text \<open>One turn of the thread, seen on the queue, the count and the event queue.\<close>

lemma written_front:
  fixes s :: "('a, 'z) delivery_state_scheme" and K q n w ok
  defines "s' \<equiv> handlePendingWrites_written K q n w ok s"
  shows "mPendingWriteEventsQueue s' = mPendingWriteEventsQueue s"
    and "mSizePendingWriteEventsQueue s' = mSizePendingWriteEventsQueue s"
    and "mMostEventsObservedPendingWriteEventsQueue s' = mMostEventsObservedPendingWriteEventsQueue s"
    and "mThreadsRun s' = mThreadsRun s"
    and "written (calls s') = written (calls s)
           @ (if ok then take n (case mPendingWriteEventsQueue s of [] \<Rightarrow> [] | (es, _) # _ \<Rightarrow> es) else [])"
  by (simp_all add: s'_def handlePendingWrites_written_def Let_def case_prod_unfold split: list.split)

lemma erase_front:
  fixes s :: "('a, 'z) delivery_state_scheme" and q n
  assumes "mPendingWriteEventsQueue s = (es, rec) # rest"
  defines "s' \<equiv> handlePendingWrites_erase q n s"
  shows "mPendingWriteEventsQueue s'
           = (if q < length es then (drop q es, rec) # rest else rest)"
    and "mSizePendingWriteEventsQueue s' = mSizePendingWriteEventsQueue s - of_nat n"
    and "mMostEventsObservedPendingWriteEventsQueue s' = mMostEventsObservedPendingWriteEventsQueue s"
    and "mThreadsRun s' = mThreadsRun s"
    and "calls s' = calls s"
  using assms(1) by (simp_all add: s'_def handlePendingWrites_erase_def Let_def)

lemma erase_calls [simp]: "calls (handlePendingWrites_erase q n s) = calls s"
  by (simp add: handlePendingWrites_erase_def Let_def split: list.split)

lemma erase_inv:
  assumes "mPendingWriteEventsQueue s = (es, rec) # rest" and "delivery_inv K s"
  shows "delivery_inv K (handlePendingWrites_erase q (min (length es) q) s)"
proof -
  let ?n = "min (length es) q" and ?size = "mSizePendingWriteEventsQueue s"
  have size: "unat ?size = length es + length (concat (map fst rest))"
    using assms by (simp add: delivery_inv_def backlog_def)
  then have "length es < 2 ^ 64" using unat_size_t_bound [of ?size] by simp
  then have n: "unat (of_nat ?n :: size_t) = ?n" by simp
  then have "unat (?size - of_nat ?n) = unat ?size - ?n"
    using size by (simp add: unat_sub_small)
  moreover from this have "?size - of_nat ?n \<le> ?size"
    by (simp add: word_le_nat_alt)
  ultimately show ?thesis
    using assms(2) size erase_front [OF assms(1), of q ?n]
    by (auto simp: delivery_inv_def backlog_def assms(1))
qed

lemma erase_backlog:
  assumes "mPendingWriteEventsQueue s = (es, rec) # rest"
  shows "backlog (handlePendingWrites_erase q (min (length es) q) s)
       = drop (min (length es) q) (backlog s)"
  using erase_front(1) [OF assms, of q "min (length es) q"] assms
  by (simp add: backlog_def min_def)

lemma written_inv: "delivery_inv K (handlePendingWrites_written K q n w ok s) = delivery_inv K s"
  by (rule delivery_inv_cong) (simp_all add: written_front)

lemma finish_front:
  fixes s :: "('a, 'z) delivery_state_scheme" and K q n w ok
  assumes "mPendingWriteEventsQueue s = (es, rec) # rest"
  defines "s' \<equiv> handlePendingWrites_finish K q n w ok s"
  shows "mPendingWriteEventsQueue s'
           = (if q < length es then (drop q es, rec) # rest else rest)"
    and "mSizePendingWriteEventsQueue s' = mSizePendingWriteEventsQueue s - of_nat n"
    and "mMostEventsObservedPendingWriteEventsQueue s' = mMostEventsObservedPendingWriteEventsQueue s"
    and "mThreadsRun s' = mThreadsRun s"
    and "written (calls s') = written (calls s) @ (if ok then take n es else [])"
  using assms(1) erase_front [of "handlePendingWrites_written K q n w ok s" es rec rest q n]
  by (simp_all add: s'_def handlePendingWrites_finish_def written_front)

lemma finish_count:
  "mWakelockRefCount (handlePendingWrites_finish K q n w ok s)
     = mWakelockRefCount (handlePendingWrites_written K q n w ok s)"
  by (simp add: handlePendingWrites_finish_def handlePendingWrites_erase_def Let_def split: list.split)

lemma finish_inv:
  assumes "mPendingWriteEventsQueue s = (es, rec) # rest" and "delivery_inv K s"
  shows "delivery_inv K (handlePendingWrites_finish K q (min (length es) q) w ok s)"
  unfolding handlePendingWrites_finish_def using assms
  by (intro erase_inv) (simp_all add: written_front written_inv)

lemma finish_stream:
  assumes "mPendingWriteEventsQueue s = (es, rec) # rest"
  shows "written (calls (handlePendingWrites_finish K q (min (length es) q) w True s))
           @ backlog (handlePendingWrites_finish K q (min (length es) q) w True s)
         = written (calls s) @ backlog s"
    and "backlog (handlePendingWrites_finish K q (min (length es) q) w ok s)
         = drop (min (length es) q) (backlog s)"
  using finish_front [OF assms, of K q "min (length es) q" w] assms
  by (simp_all add: backlog_def min_def)

text \<open>Posting appends to the stream of written and pending events, or loses the tail of the list.\<close>

lemma write_now_stream:
  "written (calls (snd (write_now env events s)))
     = written (calls s) @ take (fst (write_now env events s)) events"
  by (simp add: write_now_def Let_def)

lemma write_now_pending: "mPendingWriteEventsQueue s \<noteq> [] \<Longrightarrow> write_now env events s = (0, s)"
  by (simp add: write_now_def)

lemma keep_pending_calls: "written (calls (keep_pending K events w n s)) = written (calls s)"
  by (simp add: keep_pending_def Let_def)

lemma keep_pending_backlog:
  "backlog (keep_pending K events w n s) = backlog s @ drop n events
   \<or> backlog (keep_pending K events w n s) = backlog s"
  by (simp add: keep_pending_def Let_def backlog_def)

lemma write_now_some: "0 < fst (write_now env events s) \<Longrightarrow> backlog s = []"
  by (auto simp: write_now_def backlog_def split: if_splits)

definition posted_events :: "(event \<Rightarrow> 'a \<Rightarrow> event \<times> 'a) \<Rightarrow> event list
    \<Rightarrow> ('a, 'z) delivery_state_scheme \<Rightarrow> event list" where
  "posted_events process es s = fst (correct_events process es (als_world s))"

lemma post_unfold:
  fixes s :: "('a, 'z) delivery_state_scheme" and K process env es w locked
  defines "s0 \<equiv> (if locked then snd (incrementRefCountAndMaybeAcquireWakelock w (post_now env) s)
                  else s)\<lparr>als_world := snd (correct_events process es (als_world s))\<rparr>"
  defines "events \<equiv> posted_events process es s"
  shows "postEventsToMessageQueue K process env es w locked s
       = keep_pending K events w (fst (write_now env events s0)) (snd (write_now env events s0))"
    and "mPendingWriteEventsQueue s0 = mPendingWriteEventsQueue s"
    and "mSizePendingWriteEventsQueue s0 = mSizePendingWriteEventsQueue s"
    and "written (calls s0) = written (calls s)"
    and "mThreadsRun s0 = mThreadsRun s"
    and "mSensors s0 = mSensors s"
  by (simp_all add: s0_def events_def posted_events_def postEventsToMessageQueue_def Let_def
      case_prod_unfold)

lemma post_stream:
  fixes s :: "('a, 'z) delivery_state_scheme" and K process env es w locked
  defines "s' \<equiv> postEventsToMessageQueue K process env es w locked s"
  shows "\<exists>n. written (calls s') @ backlog s'
           = written (calls s) @ backlog s @ take n (posted_events process es s)"
proof -
  let ?ev = "posted_events process es s"
  let ?s0 = "(if locked then snd (incrementRefCountAndMaybeAcquireWakelock w (post_now env) s)
              else s)\<lparr>als_world := snd (correct_events process es (als_world s))\<rparr>"
  let ?n = "fst (write_now env ?ev ?s0)" and ?s1 = "snd (write_now env ?ev ?s0)"
  have s': "s' = keep_pending K ?ev w ?n ?s1"
    unfolding s'_def by (rule post_unfold(1))
  have b: "backlog ?s0 = backlog s" and b1: "backlog ?s1 = backlog s"
    by (simp_all add: backlog_def)
  have w: "written (calls s') = written (calls s) @ take ?n ?ev"
    by (simp add: s' keep_pending_calls write_now_stream)
  have nil: "backlog s = [] \<or> ?n = 0"
    using write_now_some [of env ?ev ?s0] b by auto
  from keep_pending_backlog [of K ?ev w ?n ?s1] show ?thesis
  proof
    assume "backlog (keep_pending K ?ev w ?n ?s1) = backlog ?s1 @ drop ?n ?ev"
    then have "written (calls s') @ backlog s'
        = written (calls s) @ backlog s @ take (length ?ev) ?ev"
      using w nil b1 by (auto simp: s')
    then show ?thesis by blast
  next
    assume "backlog (keep_pending K ?ev w ?n ?s1) = backlog ?s1"
    then have "written (calls s') @ backlog s'
        = written (calls s) @ backlog s @ take ?n ?ev"
      using w nil b1 by (auto simp: s')
    then show ?thesis by blast
  qed
qed

subsection \<open>Counting wake-up events\<close>

definition is_wakeup :: "hal_consts \<Rightarrow> sensor_info i32_map \<Rightarrow> event \<Rightarrow> bool" where
  "is_wakeup K m e \<longleftrightarrow>
     (case map_find m (sensorHandle e) of
        Some info \<Rightarrow> info_flags info AND WAKE_UP K \<noteq> 0
      | None \<Rightarrow> False)"

lemma find_map_at:
  "map_find (snd (map_at d k m)) j
     = (case map_find m j of Some v \<Rightarrow> Some v | None \<Rightarrow> if j = k then Some d else None)"
  by (auto simp: map_at_def find_assign split: option.splits)

lemma is_wakeup_map_at: "is_wakeup K (snd (map_at default_sensor_info k m)) = is_wakeup K m"
  by (rule ext)
    (auto simp: is_wakeup_def find_map_at default_sensor_info_def split: option.splits)

lemma map_at_flags:
  "info_flags (fst (map_at default_sensor_info (sensorHandle e) m)) AND WAKE_UP K \<noteq> 0 \<longleftrightarrow> is_wakeup K m e"
  by (auto simp: is_wakeup_def map_at_def default_sensor_info_def split: option.splits)

lemma count_wakeups_number:
  "fst (count_wakeups K es m) = of_nat (length (filter (is_wakeup K m) es))"
proof (induction es arbitrary: m)
  case (Cons e es)
  let ?m = "snd (map_at default_sensor_info (sensorHandle e) m)"
  have "fst (count_wakeups K (e # es) m)
      = (if is_wakeup K m e then fst (count_wakeups K es ?m) + 1 else fst (count_wakeups K es ?m))"
    by (simp add: Let_def case_prod_unfold flip: map_at_flags)
  then show ?case by (simp add: Cons.IH is_wakeup_map_at)
qed simp

lemma count_wakeups_map:
  "map_find (snd (count_wakeups K es m)) h
     = (case map_find m h of
          Some v \<Rightarrow> Some v
        | None \<Rightarrow> if h \<in> sensorHandle ` set es then Some default_sensor_info else None)"
  by (induction es arbitrary: m)
    (simp_all add: Let_def case_prod_unfold find_map_at split: option.splits)

lemma sorted_map_at: "map_sorted m \<Longrightarrow> map_sorted (snd (map_at d k m))"
  by (simp add: map_at_def sorted_assign split: option.splits)

lemma sorted_count_wakeups: "map_sorted m \<Longrightarrow> map_sorted (snd (count_wakeups K es m))"
  by (induction es arbitrary: m) (simp_all add: Let_def case_prod_unfold sorted_map_at)

subsection \<open>Turns of the thread\<close>

definition drain :: "hal_consts \<Rightarrow> nat \<Rightarrow> bool list
    \<Rightarrow> ('a, 'z) delivery_state_scheme \<Rightarrow> ('a, 'z) delivery_state_scheme" where
  "drain K q oks s = fold (handlePendingWrites_turn K q) oks s"

lemma turn_idle: "mPendingWriteEventsQueue s = [] \<Longrightarrow> handlePendingWrites_turn K q ok s = s"
  by (simp add: handlePendingWrites_turn_def handlePendingWrites_take_def)

lemma turn_front:
  assumes "mThreadsRun s" and "mPendingWriteEventsQueue s = (es, w) # rest"
  shows "handlePendingWrites_turn K q ok s
       = handlePendingWrites_finish K q (min (length es) q) w ok s"
  using assms by (simp add: handlePendingWrites_turn_def handlePendingWrites_take_def)

lemma turn_run: "mThreadsRun (handlePendingWrites_turn K q ok s) = mThreadsRun s"
proof (cases "mThreadsRun s \<and> mPendingWriteEventsQueue s \<noteq> []")
  case True
  then obtain es w rest where "mPendingWriteEventsQueue s = (es, w) # rest"
    by (metis list.exhaust surj_pair)
  with True show ?thesis by (simp add: turn_front finish_front(4))
next
  case False
  then show ?thesis
    by (auto simp: handlePendingWrites_turn_def handlePendingWrites_take_def split: list.splits)
qed

lemma turn_inv:
  assumes "mThreadsRun s" and "delivery_inv K s"
  shows "delivery_inv K (handlePendingWrites_turn K q ok s)"
proof (cases "mPendingWriteEventsQueue s")
  case Nil
  with assms show ?thesis by (simp add: turn_idle)
next
  case (Cons a rest)
  then obtain es w where "mPendingWriteEventsQueue s = (es, w) # rest" by (cases a) simp
  with assms show ?thesis by (simp add: turn_front finish_inv)
qed

lemma turn_backlog:
  assumes "mThreadsRun s" and "delivery_inv K s" and "0 < q"
  shows "length (backlog (handlePendingWrites_turn K q ok s)) \<le> length (backlog s) - 1"
proof (cases "mPendingWriteEventsQueue s")
  case Nil
  with assms show ?thesis by (simp add: turn_idle backlog_def)
next
  case (Cons a rest)
  then obtain es w where front: "mPendingWriteEventsQueue s = (es, w) # rest" by (cases a) simp
  with assms(2) have "es \<noteq> []" by (auto simp: delivery_inv_def)
  then have "0 < length es" by simp
  then have "1 \<le> min (length es) q" using assms(3) by linarith
  then show ?thesis
    using front assms(1)
    by (simp add: turn_front finish_stream(2) [OF front] diff_le_mono2)
qed

lemma backlog_Nil_iff:
  "delivery_inv K s \<Longrightarrow> backlog s = [] \<longleftrightarrow> mPendingWriteEventsQueue s = []"
  by (cases "mPendingWriteEventsQueue s") (auto simp: delivery_inv_def backlog_def)

lemma drain_inv:
  assumes "mThreadsRun s" and "delivery_inv K s"
  shows "delivery_inv K (drain K q oks s) \<and> mThreadsRun (drain K q oks s)"
  using assms by (induction oks arbitrary: s) (simp_all add: drain_def turn_inv turn_run)

lemma drain_backlog:
  assumes "mThreadsRun s" and "delivery_inv K s" and "0 < q"
  shows "length (backlog (drain K q oks s)) \<le> length (backlog s) - length oks"
  using assms
proof (induction oks arbitrary: s)
  case (Cons ok oks)
  let ?s = "handlePendingWrites_turn K q ok s"
  have "length (backlog (drain K q oks ?s)) \<le> length (backlog ?s) - length oks"
    using Cons.prems by (intro Cons.IH) (simp_all add: turn_run turn_inv)
  with turn_backlog [OF Cons.prems, of ok] show ?case
    by (simp add: drain_def)
qed (simp add: drain_def)

lemma drain_stream:
  assumes "mThreadsRun s" and "False \<notin> set oks"
  shows "written (calls (drain K q oks s)) @ backlog (drain K q oks s)
       = written (calls s) @ backlog s"
  using assms
proof (induction oks arbitrary: s)
  case step: (Cons ok oks)
  let ?s = "handlePendingWrites_turn K q ok s"
  have stream: "written (calls ?s) @ backlog ?s = written (calls s) @ backlog s"
  proof (cases "mPendingWriteEventsQueue s")
    case Nil
    then show ?thesis by (simp add: turn_idle)
  next
    case (Cons a rest)
    then obtain es w where front: "mPendingWriteEventsQueue s = (es, w) # rest" by (cases a) simp
    with step.prems show ?thesis by (simp add: turn_front finish_stream(1) [OF front])
  qed
  have "written (calls (drain K q oks ?s)) @ backlog (drain K q oks ?s)
      = written (calls ?s) @ backlog ?s"
    using step.prems by (intro step.IH) (simp_all add: turn_run)
  then show ?case unfolding stream by (simp add: drain_def)
qed (simp add: drain_def)

subsection \<open>Properties\<close>

definition example_event :: "i32 \<Rightarrow> event" where
  "example_event h =
     \<lparr>sensorHandle = h, sensorType = 1, timestamp = 100, u_scalar = Fin 0, u_data2 = Fin 0,
      u_dynamic_sensorHandle = 0\<rparr>"

definition example_delivery :: "(event list \<times> size_t) list \<Rightarrow> size_t \<Rightarrow> unit delivery_state" where
  "example_delivery q n =
     \<lparr>mThreadsRun = True, mWakelockRefCount = 9, mWakelockTimeoutStartTime = 10,
      mWakelockTimeoutResetTime = 5, calls = [ACQUIRE_WAKE_LOCK],
      mSensors = [(1, default_sensor_info\<lparr>info_flags := 1\<rparr>)],
      mPendingWriteEventsQueue = q, mSizePendingWriteEventsQueue = n,
      mMostEventsObservedPendingWriteEventsQueue = n, als_world = ()\<rparr>"

lemmas example_delivery_simps =
  example_delivery_def example_event_def example_consts_def limit_ok_def vector_ok_def
  delivery_inv_def backlog_def

lemma post_functional:
  assumes "limit_ok K" and "vector_ok es" and "delivery_inv K s"
    and "n = (if mPendingWriteEventsQueue s = [] \<and> write_succeeds env
              then min (length es) (availableToWrite env) else 0)"
    and "s' = postEventsToMessageQueue K process env es w locked s"
  shows "written (calls s') = written (calls s) @ take n (posted_events process es s)
       \<and> backlog s' =
           (if length (backlog s) + (length es - n) \<le> unat (kMaxSizePendingWriteEventsQueue K)
            then backlog s @ drop n (posted_events process es s) else backlog s)"
proof -
  let ?ev = "posted_events process es s"
  let ?s0 = "(if locked then snd (incrementRefCountAndMaybeAcquireWakelock w (post_now env) s)
              else s)\<lparr>als_world := snd (correct_events process es (als_world s))\<rparr>"
  let ?s1 = "snd (write_now env ?ev ?s0)"
  have len: "length ?ev = length es" by (simp add: posted_events_def)
  have n: "fst (write_now env ?ev ?s0) = n"
    by (simp add: write_now_def Let_def len assms(4))
  have s': "s' = keep_pending K ?ev w n ?s1"
    unfolding assms(5) by (subst post_unfold(1)) (simp add: n)
  have size: "mSizePendingWriteEventsQueue ?s1 = mSizePendingWriteEventsQueue s"
    and pend: "mPendingWriteEventsQueue ?s1 = mPendingWriteEventsQueue s"
    by simp_all
  have "written (calls ?s1) = written (calls s) @ take n ?ev"
    by (simp add: write_now_stream n)
  then have w: "written (calls s') = written (calls s) @ take n ?ev"
    by (simp add: s' keep_pending_calls)
  have "unat (mSizePendingWriteEventsQueue s + of_nat (length es - n))
      = length (backlog s) + (length es - n)"
    using assms(1-3) unat_size_add [OF assms(1), of "mSizePendingWriteEventsQueue s" "length es - n"]
    by (simp add: delivery_inv_def vector_ok_def)
  then have "mSizePendingWriteEventsQueue s + of_nat (length es - n)
        \<le> kMaxSizePendingWriteEventsQueue K
      \<longleftrightarrow> length (backlog s) + (length es - n) \<le> unat (kMaxSizePendingWriteEventsQueue K)"
    by (simp add: word_le_nat_alt)
  then have "backlog s' =
      (if length (backlog s) + (length es - n) \<le> unat (kMaxSizePendingWriteEventsQueue K)
       then backlog s @ drop n ?ev else backlog s)"
    using len
    by (auto simp: s' keep_pending_def Let_def size pend backlog_def simp del: of_nat_diff)
  with w show ?thesis by blast
qed

text \<open>
  C11: posting, on every branch.  The events are corrected; if nothing is pending and the
  write succeeds, as many as the event queue can take are written; the rest is appended to
  the pending events if the limit allows it for all of the rest, and is lost otherwise.
\<close>

theorem post_events_functional:
  assumes "limit_ok K" and "vector_ok es" and "delivery_inv K s"
    and "n = (if mPendingWriteEventsQueue s = [] \<and> write_succeeds env
              then min (length es) (availableToWrite env) else 0)"
    and "s' = postEventsToMessageQueue K process env es w locked s"
  shows "written (calls s') = written (calls s) @ take n (posted_events process es s)
       \<and> backlog s' =
           (if length (backlog s) + (length es - n) \<le> unat (kMaxSizePendingWriteEventsQueue K)
            then backlog s @ drop n (posted_events process es s) else backlog s)"
  using assms by (rule post_functional)

theorem post_events_functional_witness:
  "written (calls (postEventsToMessageQueue example_consts Pair
      \<lparr>post_now = 50, availableToWrite = 1, write_succeeds = True\<rparr>
      [example_event 1, example_event 2] 1 True (example_delivery [] 0)))
     = written (calls (example_delivery [] 0))
       @ take 1 (posted_events Pair [example_event 1, example_event 2] (example_delivery [] 0))
   \<and> backlog (postEventsToMessageQueue example_consts Pair
      \<lparr>post_now = 50, availableToWrite = 1, write_succeeds = True\<rparr>
      [example_event 1, example_event 2] 1 True (example_delivery [] 0))
     = (if length (backlog (example_delivery [] 0)) + (length [example_event 1, example_event 2] - 1)
            \<le> unat (kMaxSizePendingWriteEventsQueue example_consts)
        then backlog (example_delivery [] 0)
          @ drop 1 (posted_events Pair [example_event 1, example_event 2] (example_delivery [] 0))
        else backlog (example_delivery [] 0))"
  by (rule post_events_functional [OF _ _ _ _ refl]) (simp_all add: example_delivery_simps)

text \<open>
  The count of pending events is right.  Posting and a turn of the pending writes thread
  keep \<open>mSizePendingWriteEventsQueue\<close> equal to the number of pending events, within the
  limit and below the high-water mark, without the additions and subtractions on \<open>size_t\<close>
  wrapping around.
\<close>

lemma pending_count_invariant:
  assumes "limit_ok K" and "vector_ok es" and "delivery_inv K s"
  shows "delivery_inv K (postEventsToMessageQueue K process env es w locked s)
       \<and> (mThreadsRun s \<longrightarrow> delivery_inv K (handlePendingWrites_turn K q ok s))"
  using assms by (simp add: post_inv turn_inv)

text \<open>
  C14: the pending writes thread finishes.  With an event queue of any positive capacity, and
  whatever the results of its writes, it has emptied the pending events after at most as
  many turns as there are events; if all its writes succeed, the framework has received
  exactly the pending events, in their order.
\<close>

theorem pending_events_drained:
  assumes "mThreadsRun s" and "delivery_inv K s" and "0 < q"
    and "length (backlog s) \<le> length oks"
  shows "mPendingWriteEventsQueue (drain K q oks s) = []
       \<and> mSizePendingWriteEventsQueue (drain K q oks s) = 0
       \<and> (False \<notin> set oks \<longrightarrow>
            written (calls (drain K q oks s)) = written (calls s) @ backlog s)"
proof -
  have inv: "delivery_inv K (drain K q oks s)"
    using assms by (simp add: drain_inv)
  have nil: "backlog (drain K q oks s) = []"
    using drain_backlog [OF assms(1-3), of oks] assms(4) by simp
  have "mPendingWriteEventsQueue (drain K q oks s) = []"
    using inv nil backlog_Nil_iff by blast
  moreover have "mSizePendingWriteEventsQueue (drain K q oks s) = 0"
    using inv nil by (simp add: delivery_inv_def unat_eq_0)
  moreover have "written (calls (drain K q oks s)) = written (calls s) @ backlog s"
    if "False \<notin> set oks"
    using drain_stream [OF assms(1) that, of K q] nil by simp
  ultimately show ?thesis by blast
qed

theorem pending_events_drained_witness:
  "mPendingWriteEventsQueue (drain example_consts 1 [True, True]
      (example_delivery [([example_event 1, example_event 2], 1)] 2)) = []
   \<and> mSizePendingWriteEventsQueue (drain example_consts 1 [True, True]
      (example_delivery [([example_event 1, example_event 2], 1)] 2)) = 0
   \<and> written (calls (drain example_consts 1 [True, True]
        (example_delivery [([example_event 1, example_event 2], 1)] 2)))
     = [example_event 1, example_event 2]"
proof -
  let ?s = "example_delivery [([example_event 1, example_event 2], 1)] 2"
  have "mThreadsRun ?s" and "delivery_inv example_consts ?s" and "(0 :: nat) < 1"
    and "length (backlog ?s) \<le> length [True, True]"
    by (simp_all add: example_delivery_simps)
  from pending_events_drained [OF this] show ?thesis
    by (simp add: example_delivery_def backlog_def)
qed

text \<open>
  \<open>countNumWakeupEvents\<close> counts the events among the first \<open>n\<close> whose sensor is
  registered with the wake-up flag; but looking a sensor up with \<open>operator[]\<close> registers
  every handle it does not know, with an all-zero description, and leaves the others as
  they are.
\<close>

lemma count_registers_unknown_sensors:
  "fst (countNumWakeupEvents K es n s)
     = of_nat (length (filter (is_wakeup K (mSensors s)) (take n es)))
   \<and> map_find (mSensors (snd (countNumWakeupEvents K es n s))) h
     = (case map_find (mSensors s) h of
          Some info \<Rightarrow> Some info
        | None \<Rightarrow> if h \<in> sensorHandle ` set (take n es) then Some default_sensor_info else None)"
  by (simp add: countNumWakeupEvents_def case_prod_unfold count_wakeups_number count_wakeups_map)

text \<open>
  The recorded number of wake-up events is not adjusted.  When a part of the list was
  written and the rest is kept, the entry for the rest carries the number for the whole
  list, including the events the framework already has and will acknowledge itself.
\<close>

lemma partial_write_records_whole_count:
  assumes "limit_ok K" and "vector_ok es" and "delivery_inv K s"
    and "mPendingWriteEventsQueue s = []" and "write_succeeds env"
    and "0 < availableToWrite env" and "availableToWrite env < length es"
    and "length es - availableToWrite env \<le> unat (kMaxSizePendingWriteEventsQueue K)"
  shows "mPendingWriteEventsQueue (postEventsToMessageQueue K process env es w locked s)
       = [(drop (availableToWrite env) (posted_events process es s), w)]"
proof -
  let ?ev = "posted_events process es s"
  let ?s0 = "(if locked then snd (incrementRefCountAndMaybeAcquireWakelock w (post_now env) s)
              else s)\<lparr>als_world := snd (correct_events process es (als_world s))\<rparr>"
  have len: "length ?ev = length es" by (simp add: posted_events_def)
  have n: "fst (write_now env ?ev ?s0) = availableToWrite env"
    using assms by (simp add: write_now_def Let_def len)
  have "mSizePendingWriteEventsQueue s = 0"
    using assms(3,4) by (simp add: delivery_inv_def backlog_def unat_eq_0)
  moreover have "(of_nat (length es - availableToWrite env) :: size_t)
      \<le> kMaxSizePendingWriteEventsQueue K"
    using assms(2,8) by (simp add: word_le_nat_alt vector_ok_def del: of_nat_diff)
  ultimately show ?thesis
    using assms(4,7)
    by (subst post_unfold(1)) (simp add: n keep_pending_def Let_def len del: of_nat_diff)
qed

text \<open>
  C38: dropping a list in two pieces takes back too much.  If both writes fail, the reference
  count loses the wake-up events of the first piece and then once more the number recorded
  for the whole list.
\<close>

theorem chunked_drop_over_releases:
  assumes "mThreadsRun s" and "mPendingWriteEventsQueue s = (es, w) # rest"
    and "q < length es" and "length es \<le> 2 * q" and "0 < w"
    and "c = length (filter (is_wakeup K (mSensors s)) (take q es))"
    and "c + unat w < unat (mWakelockRefCount s)"
  shows "unat (mWakelockRefCount (drain K q [False, False] s))
       = unat (mWakelockRefCount s) - (c + unat w)"
proof -
  let ?s1 = "handlePendingWrites_turn K q False s"
  have count_dec: "unat (mWakelockRefCount (decrementRefCountAndMaybeReleaseWakelock d (- 1) t))
      = unat (mWakelockRefCount t) - unat d"
    if "mThreadsRun t" and "0 < mWakelockRefCount t" for d and t :: "('a, 'b) delivery_state_scheme"
    using decrement_releases_at_zero [of t "- 1" d] that by simp
  have c: "unat (of_nat c :: size_t) = c"
    using assms(6,7) unat_size_t_bound [of "mWakelockRefCount s"] by simp
  have pos: "0 < mWakelockRefCount s"
    using assms(7) by (auto simp: word_gt_0)
  have "unat (mWakelockRefCount ?s1) = unat (mWakelockRefCount s) - c"
    using assms(1-5) c pos
    by (simp add: turn_front finish_count handlePendingWrites_written_def Let_def case_prod_unfold count_dec
        count_registers_unknown_sensors flip: assms(6))
  moreover have front: "mPendingWriteEventsQueue ?s1 = (drop q es, w) # rest"
    and run: "mThreadsRun ?s1"
    using assms(1-3) by (simp_all add: turn_front finish_front)
  moreover from calculation have "0 < mWakelockRefCount ?s1"
    using assms(7) by (auto simp: word_gt_0)
  moreover have "\<not> q < length es - q" using assms(4) by simp
  ultimately have "unat (mWakelockRefCount (handlePendingWrites_turn K q False ?s1))
      = unat (mWakelockRefCount s) - c - unat w"
    unfolding turn_front [OF run front]
    using assms(5) by (simp add: finish_count handlePendingWrites_written_def front Let_def count_dec)
  then show ?thesis by (simp add: drain_def)
qed

theorem chunked_drop_over_releases_witness:
  "unat (mWakelockRefCount (drain example_consts 1 [False, False]
      (example_delivery [([example_event 1, example_event 1], 2)] 2)))
     = unat (mWakelockRefCount (example_delivery [([example_event 1, example_event 1], 2)] 2))
       - (1 + unat (2 :: size_t))"
  by (rule chunked_drop_over_releases [where es = "[example_event 1, example_event 1]"
        and rest = "[]" and w = 2 and c = 1])
    (simp_all add: example_delivery_simps is_wakeup_def default_sensor_info_def)

text \<open>
  Events that do not fit are lost without a trace: neither the event queue nor the
  pending events change, but the reference count keeps the wake-up events that nobody will
  ever acknowledge, until the wake lock times out.
\<close>

lemma overflow_keeps_wakeup_count:
  assumes "mThreadsRun s" and "mPendingWriteEventsQueue s \<noteq> []"
    and "limit_ok K" and "vector_ok es" and "delivery_inv K s"
    and "unat (kMaxSizePendingWriteEventsQueue K) < length (backlog s) + length es"
    and "s' = postEventsToMessageQueue K process env es w True s"
  shows "written (calls s') = written (calls s) \<and> backlog s' = backlog s
       \<and> mWakelockRefCount s' = mWakelockRefCount s + w"
proof -
  have "mWakelockRefCount s' = mWakelockRefCount s + w"
    unfolding assms(7) using assms(1)
    by (subst post_unfold(1)) (simp add: keep_pending_def Let_def wakelock_defs)
  moreover have "written (calls s') = written (calls s) \<and> backlog s' = backlog s"
    using post_functional [OF assms(3-5) refl assms(7)] assms(2,6) by simp
  ultimately show ?thesis by blast
qed

end
