(* ===== verification/Hal_Proxy.thy ===== *)
theory Hal_Proxy
  imports Sensor_Handle Event_Delivery
begin

text \<open>
  The proxy object of \<open>HalProxy.cpp\<close>: how it finds its sub-HALs, collects their sensors and
  routes the framework's calls to them.

  A sub-HAL is a library outside the repository.  Its object has an unknown state, of type
  \<open>'r\<close>, and its methods are the parameter \<open>ops\<close>: each takes the arguments and the state
  and returns the result and the new state.  The libraries themselves (\<open>dlopen\<close>,
  \<open>dlsym\<close>) and the configuration files are parameters as well.  \<open>mDirectChannelSubHal\<close>
  shares its object with an entry of \<open>mSubHalList\<close>, and is the index of that entry here.
\<close>

subsection \<open>Sub-HALs\<close>

datatype 'r sub_hal = SubHalWrapperV2_0 'r | SubHalWrapperV2_1 'r

text \<open>\<open>SharedMemInfo\<close> is handed on without being looked at.\<close>

datatype shared_mem_info = SharedMemInfo nat

record 'r sub_hal_ops =
  sub_setOperationMode :: "operation_mode \<Rightarrow> 'r sub_hal \<Rightarrow> result \<times> 'r sub_hal"
  sub_activate :: "i32 \<Rightarrow> bool \<Rightarrow> 'r sub_hal \<Rightarrow> result \<times> 'r sub_hal"
  sub_batch :: "i32 \<Rightarrow> int \<Rightarrow> int \<Rightarrow> 'r sub_hal \<Rightarrow> result \<times> 'r sub_hal"
  sub_flush :: "i32 \<Rightarrow> 'r sub_hal \<Rightarrow> result \<times> 'r sub_hal"
  sub_injectSensorData :: "event \<Rightarrow> 'r sub_hal \<Rightarrow> result \<times> 'r sub_hal"
  sub_registerDirectChannel :: "shared_mem_info \<Rightarrow> 'r sub_hal \<Rightarrow> (result \<times> i32) \<times> 'r sub_hal"
  sub_unregisterDirectChannel :: "i32 \<Rightarrow> 'r sub_hal \<Rightarrow> result \<times> 'r sub_hal"
  sub_configDirectReport ::
    "i32 \<Rightarrow> i32 \<Rightarrow> rate_level \<Rightarrow> 'r sub_hal \<Rightarrow> (result \<times> i32) \<times> 'r sub_hal"
  sub_getSensorsList :: "'r sub_hal \<Rightarrow> sensor_info list option \<times> 'r sub_hal"
  sub_initialize :: "nat \<Rightarrow> 'r sub_hal \<Rightarrow> result \<times> 'r sub_hal"

text \<open>
  What the dynamic linker gives: a library for a path, and the result of calling the
  function behind each of the two symbols, if the library has it.
\<close>

record ('l, 'r) linker =
  dlopen :: "string \<Rightarrow> 'l option"
  sensorsHalGetSubHal :: "'l \<Rightarrow> (u32 \<times> 'r) option"
  sensorsHalGetSubHal_2_1 :: "'l \<Rightarrow> (u32 \<times> 'r) option"

subsection \<open>State\<close>

text \<open>
  \<open>mEventQueue\<close> is the capacity of the queue it points to, the other pointers are whether
  they are set.  A thread object that can be joined holds the place its thread is at.
\<close>

record ('a, 'r) hal_proxy = "'a delivery_state" +
  mSubHalList :: "'r sub_hal list"
  mDynamicSensors :: "sensor_info i32_map"
  mDirectChannelSubHal :: "nat option"
  mCurrentOperationMode :: operation_mode
  mDynamicSensorsCallback :: bool
  mEventQueue :: "nat option"
  mWakeLockQueue :: bool
  mEventQueueFlag :: bool
  mWakelockQueueFlag :: bool
  mPendingWritesThread :: "pending_pc option"
  mWakelockThread :: "wakelock_pc option"

text \<open>
  The members before the body of a constructor runs are initialised by declarations outside
  the repository; the constructors take them as an argument.  What the theorems use is that
  no sub-HAL, sensor or direct channel is known yet.
\<close>

definition nothing_known :: "('a, 'r) hal_proxy \<Rightarrow> bool" where
  "nothing_known s \<longleftrightarrow>
     mSubHalList s = [] \<and> mSensors s = [] \<and> mDynamicSensors s = [] \<and> mDirectChannelSubHal s = None"

subsection \<open>Loading the sub-HALs\<close>

text \<open>\<open>operator>>\<close> on a string reads the words between white space.\<close>

definition is_space :: "char \<Rightarrow> bool" where
  "is_space c \<longleftrightarrow> c \<in> {CHR '' '', CHR 0x09, CHR 0x0A, CHR 0x0B, CHR 0x0C, CHR 0x0D}"

fun words_from :: "string \<Rightarrow> string \<Rightarrow> string list" where
  "words_from acc [] = (if acc = [] then [] else [rev acc])"
| "words_from acc (c # cs) =
     (if is_space c then (if acc = [] then [] else [rev acc]) @ words_from [] cs
      else words_from (c # acc) cs)"

definition getHandleForSubHalSharedObject :: "('l, 'r) linker \<Rightarrow> string \<Rightarrow> 'l option" where
  "getHandleForSubHalSharedObject ld filename =
     (case dlopen ld ('''' @ filename) of
        Some handle \<Rightarrow> Some handle
      | None \<Rightarrow>
          (case dlopen ld (''/vendor/lib64/hw/'' @ filename) of
             Some handle \<Rightarrow> Some handle
           | None \<Rightarrow> dlopen ld (''/odm/lib64/hw/'' @ filename)))"

definition load_sub_hal :: "hal_consts \<Rightarrow> ('l, 'r) linker \<Rightarrow> string \<Rightarrow> 'r sub_hal list" where
  "load_sub_hal K ld subHalLibraryFile =
     (case getHandleForSubHalSharedObject ld subHalLibraryFile of
        None \<Rightarrow> []
      | Some handle \<Rightarrow>
          (case sensorsHalGetSubHal ld handle of
             Some (version, subHal) \<Rightarrow>
               if version \<noteq> SUB_HAL_2_0_VERSION K then [] else [SubHalWrapperV2_0 subHal]
           | None \<Rightarrow>
               (case sensorsHalGetSubHal_2_1 ld handle of
                  None \<Rightarrow> []
                | Some (version, subHal) \<Rightarrow>
                    if version \<noteq> SUB_HAL_2_1_VERSION K then [] else [SubHalWrapperV2_1 subHal])))"

definition initializeSubHalListFromConfigFile ::
    "hal_consts \<Rightarrow> ('l, 'r) linker \<Rightarrow> string option \<Rightarrow> ('a, 'r) hal_proxy \<Rightarrow> ('a, 'r) hal_proxy" where
  "initializeSubHalListFromConfigFile K ld subHalConfigStream s =
     (case subHalConfigStream of
        None \<Rightarrow> s
      | Some contents \<Rightarrow>
          fold (\<lambda>file s. s\<lparr>mSubHalList := mSubHalList s @ load_sub_hal K ld file\<rparr>)
            (words_from [] contents) s)"

subsection \<open>Calling a sub-HAL\<close>

definition call_sub_hal :: "nat \<Rightarrow> ('r sub_hal \<Rightarrow> 'x \<times> 'r sub_hal)
    \<Rightarrow> ('a, 'r) hal_proxy \<Rightarrow> 'x \<times> ('a, 'r) hal_proxy" where
  "call_sub_hal i f s =
     (let (r, h) = f (mSubHalList s ! i)
      in (r, s\<lparr>mSubHalList := (mSubHalList s)[i := h]\<rparr>))"

definition isSubHalIndexValid :: "i32 \<Rightarrow> ('a, 'r) hal_proxy \<Rightarrow> bool" where
  "isSubHalIndexValid sensor_handle s \<longleftrightarrow>
     unat (extractSubHalIndex sensor_handle) < length (mSubHalList s)"

text \<open>The index of \<open>getSubHalForSensorHandle\<close>, used for valid handles only.\<close>

definition getSubHalForSensorHandle :: "i32 \<Rightarrow> nat" where
  "getSubHalForSensorHandle sensor_handle = unat (extractSubHalIndex sensor_handle)"

subsection \<open>The list of sensors\<close>

definition direct_mask :: "hal_consts \<Rightarrow> u32" where
  "direct_mask K = MASK_DIRECT_REPORT K OR MASK_DIRECT_CHANNEL K"

definition setDirectChannelFlags :: "hal_consts \<Rightarrow> sensor_info \<Rightarrow> nat
    \<Rightarrow> ('a, 'r) hal_proxy \<Rightarrow> sensor_info \<times> ('a, 'r) hal_proxy" where
  "setDirectChannelFlags K sensorInfo subHal s =
     (let sensorSupportsDirectChannel = (info_flags sensorInfo AND direct_mask K \<noteq> 0)
      in if mDirectChannelSubHal s = None \<and> sensorSupportsDirectChannel
         then (sensorInfo, s\<lparr>mDirectChannelSubHal := Some subHal\<rparr>)
         else if mDirectChannelSubHal s \<noteq> None \<and> mDirectChannelSubHal s \<noteq> Some subHal
         then (sensorInfo\<lparr>info_flags := info_flags sensorInfo AND NOT (direct_mask K)\<rparr>, s)
         else (sensorInfo, s))"

text \<open>The body of the loop over the sensors of one sub-HAL.  \<open>als_init\<close> is \<open>AlsCorrection::init\<close>.\<close>

definition register_sensor :: "hal_consts \<Rightarrow> ('a \<Rightarrow> 'a) \<Rightarrow> nat \<Rightarrow> sensor_info
    \<Rightarrow> ('a, 'r) hal_proxy \<Rightarrow> ('a, 'r) hal_proxy" where
  "register_sensor K als_init subHalIndex sensor s =
     (if \<not> subHalIndexIsClear K (info_sensorHandle sensor) then s
      else
        let sensor = sensor\<lparr>info_sensorHandle :=
                       setSubHalIndex (info_sensorHandle sensor) (of_nat subHalIndex)\<rparr>;
            (sensor, s) = setDirectChannelFlags K sensor subHalIndex s;
            (sensor, s) = (if info_type sensor = SENSOR_TYPE_QTI_WISE_LIGHT
                           then (sensor\<lparr>info_type := LIGHT K\<rparr>,
                                 s\<lparr>als_world := als_init (als_world s)\<rparr>)
                           else (sensor, s))
        in s\<lparr>mSensors := map_assign (info_sensorHandle sensor) sensor (mSensors s)\<rparr>)"

definition register_sub_hal :: "hal_consts \<Rightarrow> 'r sub_hal_ops \<Rightarrow> ('a \<Rightarrow> 'a) \<Rightarrow> nat
    \<Rightarrow> ('a, 'r) hal_proxy \<Rightarrow> ('a, 'r) hal_proxy" where
  "register_sub_hal K ops als_init subHalIndex s =
     (let (result, s) = call_sub_hal subHalIndex (sub_getSensorsList ops) s
      in case result of
           Some list \<Rightarrow> fold (register_sensor K als_init subHalIndex) list s
         | None \<Rightarrow> s)"

definition initializeSensorList :: "hal_consts \<Rightarrow> 'r sub_hal_ops \<Rightarrow> ('a \<Rightarrow> 'a)
    \<Rightarrow> ('a, 'r) hal_proxy \<Rightarrow> ('a, 'r) hal_proxy" where
  "initializeSensorList K ops als_init s =
     fold (register_sub_hal K ops als_init) [0 ..< length (mSubHalList s)] s"

text \<open>The three constructors.\<close>

definition HalProxy_init :: "hal_consts \<Rightarrow> 'r sub_hal_ops \<Rightarrow> ('a \<Rightarrow> 'a)
    \<Rightarrow> ('a, 'r) hal_proxy \<Rightarrow> ('a, 'r) hal_proxy" where
  "HalProxy_init K ops als_init s = initializeSensorList K ops als_init s"

definition HalProxy_from_config_files :: "hal_consts \<Rightarrow> 'r sub_hal_ops \<Rightarrow> ('a \<Rightarrow> 'a)
    \<Rightarrow> ('l, 'r) linker \<Rightarrow> (string \<Rightarrow> string option) \<Rightarrow> ('a, 'r) hal_proxy \<Rightarrow> ('a, 'r) hal_proxy" where
  "HalProxy_from_config_files K ops als_init ld read_file s =
     HalProxy_init K ops als_init
       (fold (\<lambda>configFile. initializeSubHalListFromConfigFile K ld (read_file configFile))
         [''/vendor/etc/sensors/hals.conf'', ''/odm/etc/sensors/hals.conf''] s)"

definition HalProxy_from_V2_0 :: "hal_consts \<Rightarrow> 'r sub_hal_ops \<Rightarrow> ('a \<Rightarrow> 'a)
    \<Rightarrow> 'r list \<Rightarrow> ('a, 'r) hal_proxy \<Rightarrow> ('a, 'r) hal_proxy" where
  "HalProxy_from_V2_0 K ops als_init subHalList s =
     HalProxy_init K ops als_init
       (s\<lparr>mSubHalList := mSubHalList s @ map SubHalWrapperV2_0 subHalList\<rparr>)"

definition HalProxy_from_lists :: "hal_consts \<Rightarrow> 'r sub_hal_ops \<Rightarrow> ('a \<Rightarrow> 'a)
    \<Rightarrow> 'r list \<Rightarrow> 'r list \<Rightarrow> ('a, 'r) hal_proxy \<Rightarrow> ('a, 'r) hal_proxy" where
  "HalProxy_from_lists K ops als_init subHalList subHalListV2_1 s =
     HalProxy_init K ops als_init
       (s\<lparr>mSubHalList := mSubHalList s @ map SubHalWrapperV2_0 subHalList
                         @ map SubHalWrapperV2_1 subHalListV2_1\<rparr>)"

text \<open>
  The two listings.  \<open>convertToOldSensorInfo\<close> is a conversion outside the repository.
\<close>

definition getSensorsList_2_1 :: "('a, 'r) hal_proxy \<Rightarrow> sensor_info list" where
  "getSensorsList_2_1 s = map snd (mSensors s)"

definition getSensorsList :: "hal_consts \<Rightarrow> (sensor_info \<Rightarrow> 'o) \<Rightarrow> ('a, 'r) hal_proxy \<Rightarrow> 'o list" where
  "getSensorsList K convertToOldSensorInfo s =
     map convertToOldSensorInfo
       (filter (\<lambda>info. info_type info \<noteq> HINGE_ANGLE K) (map snd (mSensors s)))"

subsection \<open>Calls by sensor handle\<close>

definition activate :: "hal_consts \<Rightarrow> 'r sub_hal_ops \<Rightarrow> i32 \<Rightarrow> bool
    \<Rightarrow> ('a, 'r) hal_proxy \<Rightarrow> result \<times> ('a, 'r) hal_proxy" where
  "activate K ops sensor_handle enabled s =
     (if \<not> isSubHalIndexValid sensor_handle s then (BAD_VALUE, s)
      else call_sub_hal (getSubHalForSensorHandle sensor_handle)
             (sub_activate ops (clearSubHalIndex K sensor_handle) enabled) s)"

definition batch :: "hal_consts \<Rightarrow> 'r sub_hal_ops \<Rightarrow> i32 \<Rightarrow> int \<Rightarrow> int
    \<Rightarrow> ('a, 'r) hal_proxy \<Rightarrow> result \<times> ('a, 'r) hal_proxy" where
  "batch K ops sensor_handle samplingPeriodNs maxReportLatencyNs s =
     (if \<not> isSubHalIndexValid sensor_handle s then (BAD_VALUE, s)
      else call_sub_hal (getSubHalForSensorHandle sensor_handle)
             (sub_batch ops (clearSubHalIndex K sensor_handle) samplingPeriodNs maxReportLatencyNs) s)"

definition flush :: "hal_consts \<Rightarrow> 'r sub_hal_ops \<Rightarrow> i32
    \<Rightarrow> ('a, 'r) hal_proxy \<Rightarrow> result \<times> ('a, 'r) hal_proxy" where
  "flush K ops sensor_handle s =
     (if \<not> isSubHalIndexValid sensor_handle s then (BAD_VALUE, s)
      else call_sub_hal (getSubHalForSensorHandle sensor_handle)
             (sub_flush ops (clearSubHalIndex K sensor_handle)) s)"

text \<open>
  \<open>convertToNewEvent\<close> turns the old event type into the new one outside the repository; the
  members of an event the model has are in both.
\<close>

definition injectSensorData :: "hal_consts \<Rightarrow> 'r sub_hal_ops \<Rightarrow> (event \<Rightarrow> event) \<Rightarrow> event
    \<Rightarrow> ('a, 'r) hal_proxy \<Rightarrow> result \<times> ('a, 'r) hal_proxy" where
  "injectSensorData K ops convertToNewEvent event s =
     (let result = (if mCurrentOperationMode s = NORMAL \<and> sensorType event \<noteq> ADDITIONAL_INFO K
                    then BAD_VALUE else OK)
      in if result = OK then
           if \<not> isSubHalIndexValid (sensorHandle event) s then (BAD_VALUE, s)
           else
             let subHalEvent = event\<lparr>sensorHandle := clearSubHalIndex K (sensorHandle event)\<rparr>
             in call_sub_hal (getSubHalForSensorHandle (sensorHandle event))
                  (sub_injectSensorData ops (convertToNewEvent subHalEvent)) s
         else (result, s))"

definition injectSensorData_2_1 :: "hal_consts \<Rightarrow> 'r sub_hal_ops \<Rightarrow> (event \<Rightarrow> event) \<Rightarrow> (event \<Rightarrow> event)
    \<Rightarrow> event \<Rightarrow> ('a, 'r) hal_proxy \<Rightarrow> result \<times> ('a, 'r) hal_proxy" where
  "injectSensorData_2_1 K ops convertToNewEvent convertToOldEvent event s =
     injectSensorData K ops convertToNewEvent (convertToOldEvent event) s"

subsection \<open>Operation mode\<close>

text \<open>
  The first loop: the result, the number of sub-HALs before the one it stopped at, and the
  sub-HALs after it.
\<close>

fun switch_modes :: "'r sub_hal_ops \<Rightarrow> operation_mode \<Rightarrow> 'r sub_hal list
    \<Rightarrow> result \<times> nat \<times> 'r sub_hal list" where
  "switch_modes ops mode [] = (OK, 0, [])"
| "switch_modes ops mode (h # hs) =
     (let (result, h) = sub_setOperationMode ops mode h
      in if result \<noteq> OK then (result, 0, h # hs)
         else
           let (result, subHalIndex, hs) = switch_modes ops mode hs
           in (result, Suc subHalIndex, h # hs))"

definition setOperationMode :: "'r sub_hal_ops \<Rightarrow> operation_mode
    \<Rightarrow> ('a, 'r) hal_proxy \<Rightarrow> result \<times> ('a, 'r) hal_proxy" where
  "setOperationMode ops mode s =
     (let (result, subHalIndex, hals) = switch_modes ops mode (mSubHalList s)
      in if result \<noteq> OK
         then (result,
               s\<lparr>mSubHalList :=
                   map (\<lambda>h. snd (sub_setOperationMode ops (mCurrentOperationMode s) h))
                     (take subHalIndex hals) @ drop subHalIndex hals\<rparr>)
         else (result, s\<lparr>mSubHalList := hals, mCurrentOperationMode := mode\<rparr>))"

subsection \<open>Direct channels\<close>

definition registerDirectChannel :: "'r sub_hal_ops \<Rightarrow> shared_mem_info
    \<Rightarrow> ('a, 'r) hal_proxy \<Rightarrow> (result \<times> i32) \<times> ('a, 'r) hal_proxy" where
  "registerDirectChannel ops mem s =
     (case mDirectChannelSubHal s of
        None \<Rightarrow> ((INVALID_OPERATION, - 1), s)
      | Some i \<Rightarrow> call_sub_hal i (sub_registerDirectChannel ops mem) s)"

definition unregisterDirectChannel :: "'r sub_hal_ops \<Rightarrow> i32
    \<Rightarrow> ('a, 'r) hal_proxy \<Rightarrow> result \<times> ('a, 'r) hal_proxy" where
  "unregisterDirectChannel ops channelHandle s =
     (case mDirectChannelSubHal s of
        None \<Rightarrow> (INVALID_OPERATION, s)
      | Some i \<Rightarrow> call_sub_hal i (sub_unregisterDirectChannel ops channelHandle) s)"

definition configDirectReport :: "hal_consts \<Rightarrow> 'r sub_hal_ops \<Rightarrow> i32 \<Rightarrow> i32 \<Rightarrow> rate_level
    \<Rightarrow> ('a, 'r) hal_proxy \<Rightarrow> (result \<times> i32) \<times> ('a, 'r) hal_proxy" where
  "configDirectReport K ops sensor_handle channelHandle rate s =
     (case mDirectChannelSubHal s of
        None \<Rightarrow> ((INVALID_OPERATION, - 1), s)
      | Some i \<Rightarrow>
          if sensor_handle = - 1 \<and> rate \<noteq> STOP then ((BAD_VALUE, - 1), s)
          else
            let sensor_handle = (if sensor_handle \<noteq> - 1 then clearSubHalIndex K sensor_handle
                                 else sensor_handle)
            in call_sub_hal i (sub_configDirectReport ops sensor_handle channelHandle rate) s)"

subsection \<open>Dynamic sensors\<close>

text \<open>The two loops under \<open>mDynamicSensorsMutex\<close>: the map, and the list that is announced.\<close>

fun connect_loop :: "hal_consts \<Rightarrow> size_t \<Rightarrow> sensor_info list \<Rightarrow> sensor_info i32_map
    \<Rightarrow> sensor_info list \<times> sensor_info i32_map" where
  "connect_loop K subHalIndex [] m = ([], m)"
| "connect_loop K subHalIndex (sensor # xs) m =
     (if \<not> subHalIndexIsClear K (info_sensorHandle sensor) then connect_loop K subHalIndex xs m
      else
        let sensor = sensor\<lparr>info_sensorHandle :=
                       setSubHalIndex (info_sensorHandle sensor) subHalIndex\<rparr>;
            m = map_assign (info_sensorHandle sensor) sensor m;
            (sensors, m) = connect_loop K subHalIndex xs m
        in (sensor # sensors, m))"

definition onDynamicSensorsConnected :: "hal_consts \<Rightarrow> sensor_info list \<Rightarrow> i32
    \<Rightarrow> ('a, 'r) hal_proxy \<Rightarrow> ('a, 'r) hal_proxy" where
  "onDynamicSensorsConnected K dynamicSensorsAdded subHalIndex s =
     (let (sensors, m) = connect_loop K (scast subHalIndex) dynamicSensorsAdded (mDynamicSensors s)
      in emit [ON_DYNAMIC_SENSORS_CONNECTED sensors] (s\<lparr>mDynamicSensors := m\<rparr>))"

fun disconnect_loop :: "hal_consts \<Rightarrow> size_t \<Rightarrow> i32 list \<Rightarrow> sensor_info i32_map
    \<Rightarrow> i32 list \<times> sensor_info i32_map" where
  "disconnect_loop K subHalIndex [] m = ([], m)"
| "disconnect_loop K subHalIndex (h # hs) m =
     (if \<not> subHalIndexIsClear K h then disconnect_loop K subHalIndex hs m
      else
        let h = setSubHalIndex h subHalIndex
        in if map_find m h \<noteq> None then
             let (sensorHandles, m) = disconnect_loop K subHalIndex hs (map_erase h m)
             in (h # sensorHandles, m)
           else disconnect_loop K subHalIndex hs m)"

definition onDynamicSensorsDisconnected :: "hal_consts \<Rightarrow> i32 list \<Rightarrow> i32
    \<Rightarrow> ('a, 'r) hal_proxy \<Rightarrow> ('a, 'r) hal_proxy" where
  "onDynamicSensorsDisconnected K dynamicSensorHandlesRemoved subHalIndex s =
     (let (sensorHandles, m) =
            disconnect_loop K (scast subHalIndex) dynamicSensorHandlesRemoved (mDynamicSensors s)
      in emit [ON_DYNAMIC_SENSORS_DISCONNECTED sensorHandles] (s\<lparr>mDynamicSensors := m\<rparr>))"

text \<open>\<open>disableAllSensors\<close>: the results of \<open>activate\<close> are not looked at.\<close>

definition disableAllSensors :: "hal_consts \<Rightarrow> 'r sub_hal_ops \<Rightarrow> ('a, 'r) hal_proxy \<Rightarrow> ('a, 'r) hal_proxy" where
  "disableAllSensors K ops s =
     (let s = fold (\<lambda>(h, _) s. snd (activate K ops h False s)) (mSensors s) s
      in fold (\<lambda>(h, _) s. snd (activate K ops h False s)) (mDynamicSensors s) s)"

end
