(* ===== verification/Sensor_Registry.thy ===== *)
theory Sensor_Registry
  imports Hal_Proxy
begin

text \<open>
  The list of sensors that the constructors of the proxy collect: which entries it has, who
  owns the direct channel, and where a call with the handle of an entry ends up.
\<close>

subsection \<open>What registration leaves alone\<close>

lemma setDirect_frame [simp, frame_simps]:
  "mSubHalList (snd (setDirectChannelFlags K x i s)) = mSubHalList s"
  "mSensors (snd (setDirectChannelFlags K x i s)) = mSensors s"
  "info_sensorHandle (fst (setDirectChannelFlags K x i s)) = info_sensorHandle x"
  "info_type (fst (setDirectChannelFlags K x i s)) = info_type x"
  by (simp_all add: setDirectChannelFlags_def Let_def)

lemma register_sensor_frame [simp, frame_simps]:
  "mSubHalList (register_sensor K als_init i x s) = mSubHalList s"
  by (simp add: register_sensor_def Let_def case_prod_unfold)

lemma register_fold_frame [simp, frame_simps]:
  "mSubHalList (fold (register_sensor K als_init i) xs s) = mSubHalList s"
  by (induction xs arbitrary: s) simp_all

lemma call_sub_hal_frame [simp, frame_simps]:
  "mSensors (snd (call_sub_hal i f s)) = mSensors s"
  "mDynamicSensors (snd (call_sub_hal i f s)) = mDynamicSensors s"
  "mDirectChannelSubHal (snd (call_sub_hal i f s)) = mDirectChannelSubHal s"
  "mCurrentOperationMode (snd (call_sub_hal i f s)) = mCurrentOperationMode s"
  "length (mSubHalList (snd (call_sub_hal i f s))) = length (mSubHalList s)"
  "j \<noteq> i \<Longrightarrow> mSubHalList (snd (call_sub_hal i f s)) ! j = mSubHalList s ! j"
  by (simp_all add: call_sub_hal_def case_prod_unfold Let_def)

subsection \<open>One sensor\<close>

text \<open>The handle and the description under which a sensor is filed.\<close>

definition proxy_handle :: "nat \<Rightarrow> sensor_info \<Rightarrow> i32" where
  "proxy_handle i x = setSubHalIndex (info_sensorHandle x) (of_nat i)"

definition filed_info :: "hal_consts \<Rightarrow> nat \<Rightarrow> sensor_info \<Rightarrow> ('a, 'r) hal_proxy \<Rightarrow> sensor_info" where
  "filed_info K i x s =
     (let x = fst (setDirectChannelFlags K
                    (x\<lparr>info_sensorHandle := proxy_handle i x\<rparr>) i s)
      in if info_type x = SENSOR_TYPE_QTI_WISE_LIGHT then x\<lparr>info_type := LIGHT K\<rparr> else x)"

lemma filed_info_handle [simp]: "info_sensorHandle (filed_info K i x s) = proxy_handle i x"
  by (simp add: filed_info_def Let_def)

lemma filed_info_type:
  "LIGHT K \<noteq> SENSOR_TYPE_QTI_WISE_LIGHT
     \<Longrightarrow> info_type (filed_info K i x s) \<noteq> SENSOR_TYPE_QTI_WISE_LIGHT"
  by (simp add: filed_info_def Let_def)

lemma register_sensor_sensors:
  "mSensors (register_sensor K als_init i x s)
     = (if subHalIndexIsClear K (info_sensorHandle x)
        then map_assign (proxy_handle i x) (filed_info K i x s) (mSensors s) else mSensors s)"
  by (simp add: register_sensor_def filed_info_def proxy_handle_def Let_def case_prod_unfold)

lemma register_sensor_direct:
  "mDirectChannelSubHal (register_sensor K als_init i x s)
     = (if subHalIndexIsClear K (info_sensorHandle x) \<and> mDirectChannelSubHal s = None
           \<and> info_flags x AND direct_mask K \<noteq> 0
        then Some i else mDirectChannelSubHal s)"
  by (simp add: register_sensor_def setDirectChannelFlags_def Let_def)

lemma and_not_and: "(a AND NOT m) AND m = (0 :: 'a::len word)"
  by (simp add: bit_eq_iff bit_simps)

text \<open>A filed sensor keeps its direct channel flags only if its sub-HAL owns the direct channel.\<close>

lemma filed_info_direct:
  assumes "info_flags (filed_info K i x s) AND direct_mask K \<noteq> 0"
    and "subHalIndexIsClear K (info_sensorHandle x)"
  shows "mDirectChannelSubHal (register_sensor K als_init i x s) = Some i"
  using assms
  by (auto simp: register_sensor_direct filed_info_def setDirectChannelFlags_def Let_def
      and_not_and split: if_splits)

subsection \<open>All sensors\<close>

text \<open>The sensors that a sub-HAL reports when it is asked.\<close>

definition reported :: "'r sub_hal_ops \<Rightarrow> ('a, 'r) hal_proxy \<Rightarrow> nat \<Rightarrow> sensor_info list" where
  "reported ops s i =
     (case fst (sub_getSensorsList ops (mSubHalList s ! i)) of Some xs \<Rightarrow> xs | None \<Rightarrow> [])"

lemma register_sub_hal_fold:
  "register_sub_hal K ops als_init i s
     = fold (register_sensor K als_init i) (reported ops s i)
         (snd (call_sub_hal i (sub_getSensorsList ops) s))"
  by (simp add: register_sub_hal_def reported_def call_sub_hal_def case_prod_unfold Let_def
      split: option.splits)

lemma register_sub_hal_frame [simp, frame_simps]:
  "length (mSubHalList (register_sub_hal K ops als_init i s)) = length (mSubHalList s)"
  "j \<noteq> i \<Longrightarrow> mSubHalList (register_sub_hal K ops als_init i s) ! j = mSubHalList s ! j"
  by (simp_all add: register_sub_hal_fold)

text \<open>A sub-HAL is asked once, and the calls before it do not touch it.\<close>

lemma register_upto_frame [simp, frame_simps]:
  "length (mSubHalList (fold (register_sub_hal K ops als_init) [0 ..< n] s)) = length (mSubHalList s)"
  "n \<le> i \<Longrightarrow> mSubHalList (fold (register_sub_hal K ops als_init) [0 ..< n] s) ! i = mSubHalList s ! i"
  by (induction n) simp_all

lemma reported_upto [simp]:
  "n \<le> i \<Longrightarrow> reported ops (fold (register_sub_hal K ops als_init) [0 ..< n] s) i = reported ops s i"
  by (simp add: reported_def)

text \<open>
  So an invariant of the registration of single sensors, with what each sub-HAL reported at
  the start, holds at the end.
\<close>

lemma initializeSensorList_invariant:
  assumes "P s"
    and call: "\<And>i t. P t \<Longrightarrow> P (snd (call_sub_hal i (sub_getSensorsList ops) t))"
    and register: "\<And>i x t. i < length (mSubHalList s) \<Longrightarrow> x \<in> set (reported ops s i) \<Longrightarrow> P t
        \<Longrightarrow> P (register_sensor K als_init i x t)"
  shows "P (initializeSensorList K ops als_init s)"
proof -
  have "P (fold (register_sub_hal K ops als_init) [0 ..< n] s)" if "n \<le> length (mSubHalList s)" for n
    using that
  proof (induction n)
    case (Suc n)
    let ?t = "fold (register_sub_hal K ops als_init) [0 ..< n] s"
    let ?u = "snd (call_sub_hal n (sub_getSensorsList ops) ?t)"
    have "P (fold (register_sensor K als_init n) (reported ops s n) ?u)"
    proof (rule fold_invariant [where Q = "\<lambda>x. x \<in> set (reported ops s n)"])
      show "P ?u" using Suc by (intro call) simp
      fix x t assume "x \<in> set (reported ops s n)" and "P t"
      then show "P (register_sensor K als_init n x t)"
        using Suc.prems by (intro register) simp_all
    qed simp
    then show ?case by (simp add: register_sub_hal_fold [of K ops als_init n ?t])
  qed (use assms(1) in simp)
  then show ?thesis by (simp add: initializeSensorList_def)
qed

text \<open>The registry: what is known of every entry.\<close>

definition origin :: "hal_consts \<Rightarrow> (nat \<Rightarrow> sensor_info list) \<Rightarrow> nat \<Rightarrow> i32 \<Rightarrow> nat \<Rightarrow> bool" where
  "origin K rep n h i \<longleftrightarrow>
     i < n \<and> (\<exists>x \<in> set (rep i). subHalIndexIsClear K (info_sensorHandle x) \<and> h = proxy_handle i x)"

definition registry_inv :: "hal_consts \<Rightarrow> (nat \<Rightarrow> sensor_info list) \<Rightarrow> nat \<Rightarrow> ('a, 'r) hal_proxy \<Rightarrow> bool" where
  "registry_inv K rep n s \<longleftrightarrow>
     map_sorted (mSensors s)
     \<and> (\<forall>h info. map_find (mSensors s) h = Some info \<longrightarrow>
          info_sensorHandle info = h
          \<and> info_type info \<noteq> SENSOR_TYPE_QTI_WISE_LIGHT
          \<and> (\<exists>i. origin K rep n h i
               \<and> (info_flags info AND direct_mask K \<noteq> 0 \<longrightarrow> mDirectChannelSubHal s = Some i)))"

lemma registry_inv_empty: "mSensors s = [] \<Longrightarrow> registry_inv K rep n s"
  by (simp add: registry_inv_def)

lemma registry_inv_call: "registry_inv K rep n s \<Longrightarrow> registry_inv K rep n (snd (call_sub_hal i f s))"
  by (simp add: registry_inv_def)

lemma registry_inv_register:
  assumes "LIGHT K \<noteq> SENSOR_TYPE_QTI_WISE_LIGHT"
    and "i < n" and "x \<in> set (rep i)" and inv: "registry_inv K rep n s"
  shows "registry_inv K rep n (register_sensor K als_init i x s)"
proof (cases "subHalIndexIsClear K (info_sensorHandle x)")
  case False
  then show ?thesis using inv by (simp add: register_sensor_def)
next
  case True
  let ?s = "register_sensor K als_init i x s"
  have origin: "origin K rep n (proxy_handle i x) i"
    using assms(2,3) True by (auto simp: origin_def)
  have direct: "mDirectChannelSubHal ?s = Some d" if "mDirectChannelSubHal s = Some d" for d
    using that by (simp add: register_sensor_direct)
  show ?thesis
    unfolding registry_inv_def
  proof (intro conjI allI impI)
    show "map_sorted (mSensors ?s)"
      using inv by (simp add: registry_inv_def register_sensor_sensors sorted_assign)
  next
    fix h info assume found: "map_find (mSensors ?s) h = Some info"
    show "info_sensorHandle info = h"
      and "info_type info \<noteq> SENSOR_TYPE_QTI_WISE_LIGHT"
      and "\<exists>i. origin K rep n h i
             \<and> (info_flags info AND direct_mask K \<noteq> 0 \<longrightarrow> mDirectChannelSubHal ?s = Some i)"
    proof (atomize (full), cases "h = proxy_handle i x")
      case new: True
      then have info: "info = filed_info K i x s"
        using found True by (simp add: register_sensor_sensors find_assign)
      have "info_flags info AND direct_mask K \<noteq> 0 \<longrightarrow> mDirectChannelSubHal ?s = Some i"
        using filed_info_direct [OF _ True] info by blast
      moreover have "origin K rep n h i" using new origin by simp
      moreover have "info_sensorHandle info = h \<and> info_type info \<noteq> SENSOR_TYPE_QTI_WISE_LIGHT"
        using info new filed_info_type [OF assms(1)] by simp
      ultimately show "info_sensorHandle info = h \<and> info_type info \<noteq> SENSOR_TYPE_QTI_WISE_LIGHT
          \<and> (\<exists>i. origin K rep n h i
             \<and> (info_flags info AND direct_mask K \<noteq> 0 \<longrightarrow> mDirectChannelSubHal ?s = Some i))"
        by blast
    next
      case False
      then have "map_find (mSensors s) h = Some info"
        using found True by (simp add: register_sensor_sensors find_assign)
      with inv direct show "info_sensorHandle info = h \<and> info_type info \<noteq> SENSOR_TYPE_QTI_WISE_LIGHT
          \<and> (\<exists>i. origin K rep n h i
             \<and> (info_flags info AND direct_mask K \<noteq> 0 \<longrightarrow> mDirectChannelSubHal ?s = Some i))"
        unfolding registry_inv_def by blast
    qed
  qed
qed

lemma registry_inv_init:
  assumes "LIGHT K \<noteq> SENSOR_TYPE_QTI_WISE_LIGHT" and "mSensors s = []"
  shows "registry_inv K (reported ops s) (length (mSubHalList s)) (initializeSensorList K ops als_init s)"
  by (rule initializeSensorList_invariant)
    (simp_all add: assms registry_inv_empty registry_inv_call registry_inv_register)

text \<open>Nothing that was reported is missing.\<close>

definition has_sensor :: "i32 \<Rightarrow> ('a, 'r) hal_proxy \<Rightarrow> bool" where
  "has_sensor h s \<longleftrightarrow> map_find (mSensors s) h \<noteq> None"

lemma has_sensor_call: "has_sensor h (snd (call_sub_hal i f s)) = has_sensor h s"
  by (simp add: has_sensor_def)

lemma has_sensor_register: "has_sensor h s \<Longrightarrow> has_sensor h (register_sensor K als_init i x s)"
  by (simp add: has_sensor_def register_sensor_sensors find_assign)

lemma has_sensor_registered:
  "subHalIndexIsClear K (info_sensorHandle x)
     \<Longrightarrow> has_sensor (proxy_handle i x) (register_sensor K als_init i x s)"
  by (simp add: has_sensor_def register_sensor_sensors find_assign)

lemma has_sensor_fold:
  "has_sensor h s \<Longrightarrow> has_sensor h (fold (register_sensor K als_init i) xs s)"
  by (induction xs arbitrary: s) (simp_all add: has_sensor_register)

lemma has_sensor_list:
  "x \<in> set xs \<Longrightarrow> subHalIndexIsClear K (info_sensorHandle x)
     \<Longrightarrow> has_sensor (proxy_handle i x) (fold (register_sensor K als_init i) xs s)"
  by (induction xs arbitrary: s) (auto simp: has_sensor_fold has_sensor_registered)

lemma has_sensor_sub_hal:
  "has_sensor h s \<Longrightarrow> has_sensor h (register_sub_hal K ops als_init i s)"
  by (simp add: register_sub_hal_fold has_sensor_fold has_sensor_call)

lemma has_sensor_init:
  assumes "i < length (mSubHalList s)" and "x \<in> set (reported ops s i)"
    and "subHalIndexIsClear K (info_sensorHandle x)"
  shows "has_sensor (proxy_handle i x) (initializeSensorList K ops als_init s)"
proof -
  let ?f = "register_sub_hal K ops als_init"
  have later: "has_sensor h t \<Longrightarrow> has_sensor h (fold ?f js t)" for h js t
    by (induction js arbitrary: t) (simp_all add: has_sensor_sub_hal)
  have "has_sensor (proxy_handle i x) (?f i (fold ?f [0 ..< i] s))"
    using assms by (simp add: register_sub_hal_fold has_sensor_list)
  moreover have "[0 ..< length (mSubHalList s)] = [0 ..< i] @ i # [Suc i ..< length (mSubHalList s)]"
    using assms(1) by (metis less_imp_add_positive upt_add_eq_append upt_conv_Cons zero_le_numeral
        add_gr_0 le0 less_imp_le_nat)
  ultimately show ?thesis
    using later by (simp add: initializeSensorList_def)
qed

lemma initialize_length:
  "length (mSubHalList (initializeSensorList K ops als_init s)) = length (mSubHalList s)"
  by (simp add: initializeSensorList_def)

subsection \<open>Routing\<close>

text \<open>A call with the handle of a reported sensor reaches its sub-HAL, with the sub-HAL's handle.\<close>

lemma route:
  assumes "mask_is_first_byte K" and "subHalIndexIsClear K (info_sensorHandle x)"
    and "i < length (mSubHalList s)" and "length (mSubHalList s) \<le> 128"
  shows "isSubHalIndexValid (proxy_handle i x) s"
    and "getSubHalForSensorHandle (proxy_handle i x) = i"
    and "clearSubHalIndex K (proxy_handle i x) = info_sensorHandle x"
proof -
  have i: "unat (of_nat i :: size_t) = i" using assms(3,4) by simp
  then have "extractSubHalIndex (proxy_handle i x) = of_nat i"
    unfolding proxy_handle_def using assms by (intro handle.get_set) simp_all
  with i assms(3) show "isSubHalIndexValid (proxy_handle i x) s"
    and "getSubHalForSensorHandle (proxy_handle i x) = i"
    by (simp_all add: isSubHalIndexValid_def getSubHalForSensorHandle_def)
  show "clearSubHalIndex K (proxy_handle i x) = info_sensorHandle x"
    unfolding proxy_handle_def by (rule handle.clear_set [OF assms(1,2)])
qed

subsection \<open>Properties\<close>

text \<open>
  An example: a sub-HAL whose object is the list of sensors it reports, and which refuses to
  change its mode when it has none.
\<close>

fun object :: "'r sub_hal \<Rightarrow> 'r" where
  "object (SubHalWrapperV2_0 r) = r"
| "object (SubHalWrapperV2_1 r) = r"

definition example_ops :: "sensor_info list sub_hal_ops" where
  "example_ops =
     \<lparr>sub_setOperationMode = (\<lambda>mode h. (if object h = [] then BAD_VALUE else OK, h)),
      sub_activate = (\<lambda>h en s. (OK, s)), sub_batch = (\<lambda>h p l s. (OK, s)),
      sub_flush = (\<lambda>h s. (OK, s)), sub_injectSensorData = (\<lambda>e s. (OK, s)),
      sub_registerDirectChannel = (\<lambda>m s. ((OK, 1), s)),
      sub_unregisterDirectChannel = (\<lambda>c s. (OK, s)),
      sub_configDirectReport = (\<lambda>h c r s. ((OK, 1), s)),
      sub_getSensorsList = (\<lambda>s. (Some (object s), s)), sub_initialize = (\<lambda>i s. (OK, s))\<rparr>"

definition example_sensor :: "i32 \<Rightarrow> u32 \<Rightarrow> sensor_info" where
  "example_sensor h flags =
     \<lparr>info_sensorHandle = h, info_name = ''s'', info_type = 1, info_flags = flags\<rparr>"

definition example_proxy :: "sensor_info list list \<Rightarrow> (unit, sensor_info list) hal_proxy" where
  "example_proxy hals =
     \<lparr>mThreadsRun = False, mWakelockRefCount = 0, mWakelockTimeoutStartTime = 0,
      mWakelockTimeoutResetTime = 0, calls = [], mSensors = [], mPendingWriteEventsQueue = [],
      mSizePendingWriteEventsQueue = 0, mMostEventsObservedPendingWriteEventsQueue = 0,
      als_world = (), mSubHalList = map SubHalWrapperV2_0 hals, mDynamicSensors = [],
      mDirectChannelSubHal = None, mCurrentOperationMode = NORMAL,
      mDynamicSensorsCallback = False, mEventQueue = None, mWakeLockQueue = False,
      mEventQueueFlag = False, mWakelockQueueFlag = False, mPendingWritesThread = None,
      mWakelockThread = None\<rparr>"

lemmas example_registry_simps =
  example_consts_def SENSOR_TYPE_QTI_WISE_LIGHT_def example_proxy_def initializeSensorList_def
  register_sub_hal_def call_sub_hal_def example_ops_def example_sensor_def register_sensor_def
  subHalIndexIsClear_def setDirectChannelFlags_def direct_mask_def setSubHalIndex_def
  kBitsAfterSubHalIndex_def upt_rec Let_def

text \<open>
  C10: every sensor of every sub-HAL can be reached.  After the constructor has collected the
  sensors of at most 128 sub-HALs, each sensor that sub-HAL \<open>i\<close> reported with a clear first
  byte is listed under its packed handle, and enabling, batching or flushing that handle
  calls sub-HAL \<open>i\<close> with the sub-HAL's own handle.
\<close>

theorem sensors_reachable:
  assumes "mask_is_first_byte K" and "length (mSubHalList s) \<le> 128"
    and "i < length (mSubHalList s)" and "x \<in> set (reported ops s i)"
    and "subHalIndexIsClear K (info_sensorHandle x)"
    and "t = initializeSensorList K ops als_init s"
    and "h = setSubHalIndex (info_sensorHandle x) (of_nat i)"
  shows "map_find (mSensors t) h \<noteq> None
       \<and> activate K ops h en t = call_sub_hal i (sub_activate ops (info_sensorHandle x) en) t
       \<and> batch K ops h p l t = call_sub_hal i (sub_batch ops (info_sensorHandle x) p l) t
       \<and> flush K ops h t = call_sub_hal i (sub_flush ops (info_sensorHandle x)) t"
proof -
  have h: "h = proxy_handle i x" by (simp add: assms(7) proxy_handle_def)
  have "i < length (mSubHalList t)" and "length (mSubHalList t) \<le> 128"
    using assms(2,3,6) by (simp_all add: initialize_length)
  note r = route [OF assms(1,5) this, folded h]
  have "has_sensor h t"
    unfolding h assms(6) by (rule has_sensor_init [OF assms(3,4,5)])
  then show ?thesis
    using r by (simp add: has_sensor_def activate_def batch_def flush_def)
qed

theorem sensors_reachable_witness:
  "map_find (mSensors (initializeSensorList example_consts example_ops id
       (example_proxy [[example_sensor 1 0], [example_sensor 7 0]]))) (setSubHalIndex 7 1) \<noteq> None"
proof -
  let ?s = "example_proxy [[example_sensor 1 0], [example_sensor 7 0]]"
  have "map_find (mSensors (initializeSensorList example_consts example_ops id ?s)) (setSubHalIndex 7 1) \<noteq> None
       \<and> activate example_consts example_ops (setSubHalIndex 7 1) True
           (initializeSensorList example_consts example_ops id ?s)
         = call_sub_hal 1 (sub_activate example_ops (info_sensorHandle (example_sensor 7 0)) True)
           (initializeSensorList example_consts example_ops id ?s)
       \<and> batch example_consts example_ops (setSubHalIndex 7 1) 0 0
           (initializeSensorList example_consts example_ops id ?s)
         = call_sub_hal 1 (sub_batch example_ops (info_sensorHandle (example_sensor 7 0)) 0 0)
           (initializeSensorList example_consts example_ops id ?s)
       \<and> flush example_consts example_ops (setSubHalIndex 7 1)
           (initializeSensorList example_consts example_ops id ?s)
         = call_sub_hal 1 (sub_flush example_ops (info_sensorHandle (example_sensor 7 0)))
           (initializeSensorList example_consts example_ops id ?s)"
    by (rule sensors_reachable)
      (simp_all add: example_proxy_def example_ops_def example_sensor_def reported_def)
  then show ?thesis by blast
qed

text \<open>
  The list holds nothing else.  Every entry is filed under its own handle, which belongs
  to a sensor that one of the sub-HALs reported with a clear first byte; and no entry has
  the vendor's light sensor type.
\<close>

lemma sensors_sound:
  assumes "LIGHT K \<noteq> SENSOR_TYPE_QTI_WISE_LIGHT" and "mSensors s = []"
    and "map_find (mSensors (initializeSensorList K ops als_init s)) h = Some info"
  shows "info_sensorHandle info = h \<and> info_type info \<noteq> SENSOR_TYPE_QTI_WISE_LIGHT
       \<and> (\<exists>i < length (mSubHalList s). \<exists>x \<in> set (reported ops s i).
            subHalIndexIsClear K (info_sensorHandle x)
            \<and> h = setSubHalIndex (info_sensorHandle x) (of_nat i))"
  using registry_inv_init [OF assms(1,2), of ops als_init] assms(3)
  unfolding registry_inv_def origin_def proxy_handle_def by blast

text \<open>
  Only one sub-HAL offers direct channels.  A listed sensor that still has a direct
  report or direct channel flag belongs to the sub-HAL that \<open>mDirectChannelSubHal\<close> points to.
\<close>

lemma one_direct_channel_sub_hal:
  assumes "mask_is_first_byte K" and "LIGHT K \<noteq> SENSOR_TYPE_QTI_WISE_LIGHT"
    and "mSensors s = []" and "length (mSubHalList s) \<le> 128"
    and "t = initializeSensorList K ops als_init s"
    and "map_find (mSensors t) h = Some info"
    and "info_flags info AND (MASK_DIRECT_REPORT K OR MASK_DIRECT_CHANNEL K) \<noteq> 0"
  shows "mDirectChannelSubHal t = Some (getSubHalForSensorHandle h)"
proof -
  obtain i where i: "origin K (reported ops s) (length (mSubHalList s)) h i"
    and direct: "mDirectChannelSubHal t = Some i"
    using registry_inv_init [OF assms(2,3), of ops als_init] assms(6,7)
    unfolding registry_inv_def assms(5) direct_mask_def by blast
  from i obtain x where "i < length (mSubHalList t)"
    and "subHalIndexIsClear K (info_sensorHandle x)" and "h = proxy_handle i x"
    by (auto simp: origin_def assms(5) initialize_length)
  then have "getSubHalForSensorHandle h = i"
    using route(2) [OF assms(1)] assms(4,5) by (simp add: initialize_length)
  with direct show ?thesis by simp
qed

end
