(* ===== verification/Proxy_Calls.thy ===== *)
theory Proxy_Calls
  imports Sensor_Registry
begin

text \<open>
  The framework's calls to the proxy: errors and isolation of the calls by sensor handle,
  the switch of the operation mode with its rollback, data injection, direct channels,
  dynamic sensors, and the loading of the libraries named in the configuration files.
\<close>

subsection \<open>Calls by handle\<close>

text \<open>The calls that carry a sensor handle, on the proxy and on a sub-HAL.\<close>

datatype handle_call =
    Activate i32 bool
  | Batch i32 int int
  | Flush i32
  | Inject event

fun call_handle :: "handle_call \<Rightarrow> i32" where
  "call_handle (Activate h en) = h"
| "call_handle (Batch h p l) = h"
| "call_handle (Flush h) = h"
| "call_handle (Inject e) = sensorHandle e"

fun proxy_call :: "hal_consts \<Rightarrow> 'r sub_hal_ops \<Rightarrow> (event \<Rightarrow> event) \<Rightarrow> handle_call
    \<Rightarrow> ('a, 'r) hal_proxy \<Rightarrow> result \<times> ('a, 'r) hal_proxy" where
  "proxy_call K ops conv (Activate h en) s = activate K ops h en s"
| "proxy_call K ops conv (Batch h p l) s = batch K ops h p l s"
| "proxy_call K ops conv (Flush h) s = flush K ops h s"
| "proxy_call K ops conv (Inject e) s = injectSensorData K ops conv e s"

fun proxy_calls :: "hal_consts \<Rightarrow> 'r sub_hal_ops \<Rightarrow> (event \<Rightarrow> event) \<Rightarrow> handle_call list
    \<Rightarrow> ('a, 'r) hal_proxy \<Rightarrow> ('a, 'r) hal_proxy" where
  "proxy_calls K ops conv [] s = s"
| "proxy_calls K ops conv (c # cs) s = proxy_calls K ops conv cs (snd (proxy_call K ops conv c s))"

text \<open>The same call, as the sub-HAL it is meant for should see it.\<close>

fun sub_hal_call :: "hal_consts \<Rightarrow> 'r sub_hal_ops \<Rightarrow> (event \<Rightarrow> event) \<Rightarrow> handle_call
    \<Rightarrow> 'r sub_hal \<Rightarrow> result \<times> 'r sub_hal" where
  "sub_hal_call K ops conv (Activate h en) = sub_activate ops (clearSubHalIndex K h) en"
| "sub_hal_call K ops conv (Batch h p l) = sub_batch ops (clearSubHalIndex K h) p l"
| "sub_hal_call K ops conv (Flush h) = sub_flush ops (clearSubHalIndex K h)"
| "sub_hal_call K ops conv (Inject e) =
     sub_injectSensorData ops (conv (e\<lparr>sensorHandle := clearSubHalIndex K (sensorHandle e)\<rparr>))"

text \<open>In the normal mode, only additional information may be injected.\<close>

fun permitted :: "hal_consts \<Rightarrow> operation_mode \<Rightarrow> handle_call \<Rightarrow> bool" where
  "permitted K mode (Inject e) \<longleftrightarrow> mode \<noteq> NORMAL \<or> sensorType e = ADDITIONAL_INFO K"
| "permitted K mode _ \<longleftrightarrow> True"

text \<open>The sub-HAL a call is for.\<close>

definition addressee :: "handle_call \<Rightarrow> nat" where
  "addressee c = unat (extractSubHalIndex (call_handle c))"

lemma proxy_call_eq:
  "proxy_call K ops conv c s =
     (if permitted K (mCurrentOperationMode s) c \<and> addressee c < length (mSubHalList s)
      then call_sub_hal (addressee c) (sub_hal_call K ops conv c) s else (BAD_VALUE, s))"
  by (cases c)
    (simp_all add: activate_def batch_def flush_def injectSensorData_def addressee_def
      isSubHalIndexValid_def getSubHalForSensorHandle_def Let_def)

lemma proxy_call_frame:
  "snd (proxy_call K ops conv c s)
     = s\<lparr>mSubHalList := mSubHalList (snd (proxy_call K ops conv c s))\<rparr>"
  "length (mSubHalList (snd (proxy_call K ops conv c s))) = length (mSubHalList s)"
  "mCurrentOperationMode (snd (proxy_call K ops conv c s)) = mCurrentOperationMode s"
  by (simp_all add: proxy_call_eq call_sub_hal_def case_prod_unfold Let_def)

lemma proxy_call_nth:
  "j < length (mSubHalList s) \<Longrightarrow>
     mSubHalList (snd (proxy_call K ops conv c s)) ! j
       = (if permitted K (mCurrentOperationMode s) c \<and> addressee c = j
          then snd (sub_hal_call K ops conv c (mSubHalList s ! j)) else mSubHalList s ! j)"
  by (auto simp: proxy_call_eq call_sub_hal_def case_prod_unfold Let_def)

lemma proxy_calls_frame:
  "\<exists>hals. proxy_calls K ops conv cs s = s\<lparr>mSubHalList := hals\<rparr> \<and> length hals = length (mSubHalList s)"
proof (induction cs arbitrary: s)
  case Nil
  show ?case by (intro exI [of _ "mSubHalList s"]) simp
next
  case (Cons c cs)
  let ?s = "snd (proxy_call K ops conv c s)"
  obtain hals where hals: "proxy_calls K ops conv cs ?s = ?s\<lparr>mSubHalList := hals\<rparr>"
    "length hals = length (mSubHalList ?s)"
    using Cons.IH [of ?s] by blast
  have "?s\<lparr>mSubHalList := hals\<rparr> = s\<lparr>mSubHalList := hals\<rparr>"
    by (subst proxy_call_frame(1)) simp
  with hals show ?case by (intro exI [of _ hals]) (simp add: proxy_call_frame(2))
qed

lemma proxy_calls_nth:
  assumes "j < length (mSubHalList s)"
  shows "mSubHalList (proxy_calls K ops conv cs s) ! j
       = fold (\<lambda>c hal. snd (sub_hal_call K ops conv c hal))
           (filter (\<lambda>c. permitted K (mCurrentOperationMode s) c \<and> addressee c = j) cs)
           (mSubHalList s ! j)"
  using assms
proof (induction cs arbitrary: s)
  case (Cons c cs)
  show ?case
    using Cons.IH [of "snd (proxy_call K ops conv c s)"] Cons.prems
    by (simp add: proxy_call_frame(2,3) proxy_call_nth)
qed simp

text \<open>
  C12: each sub-HAL sees exactly its own calls.  After any sequence of enable, batch, flush and
  injection calls, a sub-HAL is in the state that the permitted calls addressed to it, in
  their order and with its own handles, bring it to; nothing of the proxy but the sub-HALs
  has changed; and a call is refused with \<open>BAD_VALUE\<close> and without effect when it is not
  permitted or its handle names no sub-HAL.
\<close>

theorem sub_hals_see_their_calls:
  assumes "j < length (mSubHalList s)"
  shows "mSubHalList (proxy_calls K ops conv cs s) ! j
         = fold (\<lambda>c hal. snd (sub_hal_call K ops conv c hal))
             (filter (\<lambda>c. permitted K (mCurrentOperationMode s) c \<and> addressee c = j) cs)
             (mSubHalList s ! j)
       \<and> proxy_calls K ops conv cs s
         = s\<lparr>mSubHalList := mSubHalList (proxy_calls K ops conv cs s)\<rparr>
       \<and> (\<not> permitted K (mCurrentOperationMode s) c \<or> length (mSubHalList s) \<le> addressee c
            \<longrightarrow> proxy_call K ops conv c s = (BAD_VALUE, s))"
proof -
  obtain hals where "proxy_calls K ops conv cs s = s\<lparr>mSubHalList := hals\<rparr>"
    using proxy_calls_frame by blast
  then have "proxy_calls K ops conv cs s
      = s\<lparr>mSubHalList := mSubHalList (proxy_calls K ops conv cs s)\<rparr>"
    by simp
  with proxy_calls_nth [OF assms] show ?thesis by (simp add: proxy_call_eq)
qed

theorem sub_hals_see_their_calls_witness:
  "mSubHalList (proxy_calls example_consts example_ops id [Activate 1 True, Flush 0x1000007]
      (example_proxy [[example_sensor 1 0], [example_sensor 7 0]])) ! 1
    = fold (\<lambda>c hal. snd (sub_hal_call example_consts example_ops id c hal))
        (filter (\<lambda>c. permitted example_consts NORMAL c \<and> addressee c = 1)
          [Activate 1 True, Flush 0x1000007]) (SubHalWrapperV2_0 [example_sensor 7 0])"
  using sub_hals_see_their_calls
    [of 1 "example_proxy [[example_sensor 1 0], [example_sensor 7 0]]" example_consts example_ops id
      "[Activate 1 True, Flush 0x1000007]" "Flush 1"]
  by (simp add: example_proxy_def)

subsection \<open>Operation mode\<close>

lemma switch_modes_length: "length (snd (snd (switch_modes ops mode hs))) = length hs"
  by (induction hs) (simp_all add: Let_def case_prod_unfold)

lemma switch_modes_ok:
  "\<forall>h \<in> set hs. fst (sub_setOperationMode ops mode h) = OK
     \<Longrightarrow> switch_modes ops mode hs
       = (OK, length hs, map (\<lambda>h. snd (sub_setOperationMode ops mode h)) hs)"
  by (induction hs) (simp_all add: Let_def case_prod_unfold)

lemma switch_modes_fail:
  assumes "\<forall>h \<in> set hs. fst (sub_setOperationMode ops mode h) = OK"
    and "fst (sub_setOperationMode ops mode g) \<noteq> OK"
  shows "switch_modes ops mode (hs @ g # rest)
       = (fst (sub_setOperationMode ops mode g), length hs,
          map (\<lambda>h. snd (sub_setOperationMode ops mode h)) hs
            @ snd (sub_setOperationMode ops mode g) # rest)"
  using assms by (induction hs) (simp_all add: Let_def case_prod_unfold)

text \<open>
  C17: the operation mode is switched for all sub-HALs or for none.  If every sub-HAL accepts
  the new mode, each is told once, in order, and the proxy remembers the mode.  If one
  refuses, its answer is the result, the proxy keeps its mode, and exactly the sub-HALs that
  had been switched before it are told to go back to that mode; the later ones never hear of
  the attempt.
\<close>

theorem operation_mode_all_or_none:
  assumes "mSubHalList s = before @ rest"
    and "\<forall>h \<in> set before. fst (sub_setOperationMode ops mode h) = OK"
  shows "(rest = [] \<longrightarrow> setOperationMode ops mode s
            = (OK, s\<lparr>mSubHalList := map (\<lambda>h. snd (sub_setOperationMode ops mode h)) before,
                     mCurrentOperationMode := mode\<rparr>))
       \<and> (\<forall>g after. rest = g # after \<and> fst (sub_setOperationMode ops mode g) \<noteq> OK \<longrightarrow>
            setOperationMode ops mode s
            = (fst (sub_setOperationMode ops mode g),
               s\<lparr>mSubHalList :=
                   map (\<lambda>h. snd (sub_setOperationMode ops (mCurrentOperationMode s)
                              (snd (sub_setOperationMode ops mode h)))) before
                   @ snd (sub_setOperationMode ops mode g) # after\<rparr>))"
  using switch_modes_ok [OF assms(2)] switch_modes_fail [OF assms(2)]
  by (auto simp: setOperationMode_def assms(1))

theorem operation_mode_all_or_none_witness:
  "setOperationMode example_ops DATA_INJECTION (example_proxy [[example_sensor 1 0], [], []])
     = (BAD_VALUE,
        (example_proxy [[example_sensor 1 0], [], []])
        \<lparr>mSubHalList :=
          map (\<lambda>h. snd (sub_setOperationMode example_ops
                (mCurrentOperationMode (example_proxy [[example_sensor 1 0], [], []]))
                (snd (sub_setOperationMode example_ops DATA_INJECTION h))))
            [SubHalWrapperV2_0 [example_sensor 1 0]]
          @ snd (sub_setOperationMode example_ops DATA_INJECTION (SubHalWrapperV2_0 []))
          # [SubHalWrapperV2_0 []]\<rparr>)"
  using operation_mode_all_or_none
    [of "example_proxy [[example_sensor 1 0], [], []]" "[SubHalWrapperV2_0 [example_sensor 1 0]]"
      "[SubHalWrapperV2_0 [], SubHalWrapperV2_0 []]" example_ops DATA_INJECTION]
  by (simp add: example_ops_def example_proxy_def)

subsection \<open>Direct channels\<close>

text \<open>A sub-HAL supports direct channels if a sensor it can register does.\<close>

definition offers_direct :: "hal_consts \<Rightarrow> sensor_info list \<Rightarrow> bool" where
  "offers_direct K xs \<longleftrightarrow>
     (\<exists>x \<in> set xs. subHalIndexIsClear K (info_sensorHandle x) \<and> info_flags x AND direct_mask K \<noteq> 0)"

lemma direct_after_list:
  "mDirectChannelSubHal (fold (register_sensor K als_init i) xs s)
     = (if mDirectChannelSubHal s = None \<and> offers_direct K xs then Some i
        else mDirectChannelSubHal s)"
  by (induction xs arbitrary: s) (auto simp: register_sensor_direct offers_direct_def)

lemma find_snoc: "List.find P (xs @ [x])
    = (case List.find P xs of Some y \<Rightarrow> Some y | None \<Rightarrow> if P x then Some x else None)"
  by (induction xs) auto

lemma direct_after_upto:
  assumes "mDirectChannelSubHal s = None"
  shows "mDirectChannelSubHal (fold (register_sub_hal K ops als_init) [0 ..< n] s)
       = List.find (\<lambda>i. offers_direct K (reported ops s i)) [0 ..< n]"
proof (induction n)
  case (Suc n)
  then show ?case
    by (simp add: find_snoc
        register_sub_hal_fold [of K ops als_init n "fold (register_sub_hal K ops als_init) [0 ..< n] s"]
        direct_after_list split: option.split)
qed (simp add: assms)

text \<open>
  The direct channel belongs to the first sub-HAL, in the order of the list, that reports
  a sensor with a direct report or direct channel flag and a clear first byte; if there is
  none, registering and releasing a channel and configuring reports are invalid operations.
\<close>

lemma direct_channel_owner:
  assumes "mDirectChannelSubHal s = None" and "t = initializeSensorList K ops als_init s"
  shows "mDirectChannelSubHal t
         = List.find (\<lambda>i. offers_direct K (reported ops s i)) [0 ..< length (mSubHalList s)]
       \<and> ((\<forall>i < length (mSubHalList s). \<not> offers_direct K (reported ops s i)) \<longrightarrow>
            registerDirectChannel ops mem t = ((INVALID_OPERATION, - 1), t)
            \<and> unregisterDirectChannel ops c t = (INVALID_OPERATION, t)
            \<and> configDirectReport K ops h c rate t = ((INVALID_OPERATION, - 1), t))"
proof -
  have owner: "mDirectChannelSubHal t
      = List.find (\<lambda>i. offers_direct K (reported ops s i)) [0 ..< length (mSubHalList s)]"
    using assms by (simp add: initializeSensorList_def direct_after_upto)
  moreover have "mDirectChannelSubHal t = None"
    if "\<forall>i < length (mSubHalList s). \<not> offers_direct K (reported ops s i)"
    using that owner by (simp add: find_None_iff)
  ultimately show ?thesis
    by (simp add: registerDirectChannel_def unregisterDirectChannel_def configDirectReport_def)
qed

text \<open>
  \<open>configDirectReport\<close> does not look at the index in the handle.  Two handles with the
  same sub-HAL part have the same effect, even if they belong to sensors of different
  sub-HALs: the sub-HAL with the direct channel is asked for its own sensor of that number.
\<close>

lemma direct_report_ignores_index:
  assumes "mask_is_first_byte K" and "subHalIndexIsClear K h"
    and "setSubHalIndex h i \<noteq> - 1" and "setSubHalIndex h j \<noteq> - 1"
  shows "configDirectReport K ops (setSubHalIndex h i) c rate s
       = configDirectReport K ops (setSubHalIndex h j) c rate s"
  using assms by (simp add: configDirectReport_def handle.clear_set Let_def split: option.split)

end
