(* ===== verification/Hal_Lifecycle.thy ===== *)
theory Hal_Lifecycle
  imports Proxy_Calls
begin

text \<open>
  Starting and stopping the proxy: \<open>stopThreads\<close>, \<open>initializeCommon\<close> with its two callers,
  and the destructor.

  Each thread is at a place of its loop.  \<open>join\<close> lets it run to its end: since
  \<open>mThreadsRun\<close> is false by then, a thread that waits leaves its loop, and a thread that is
  in a call on a queue first finishes that turn.  (That the waiting threads do wake up is
  looked at in \<open>Stop_Protocol\<close>.)
\<close>

subsection \<open>Stopping\<close>

text \<open>What is found outside while the threads stop.\<close>

record stop_env =
  availableToRead :: nat
  last_write_succeeds :: bool
  last_wakelock_read :: "u32 option"
  last_reset_now :: int

definition finish_pending_writes :: "hal_consts \<Rightarrow> bool \<Rightarrow> pending_pc
    \<Rightarrow> ('a, 'z) delivery_state_scheme \<Rightarrow> ('a, 'z) delivery_state_scheme" where
  "finish_pending_writes K ok pc s =
     (case pc of
        PW_WRITING q n w \<Rightarrow> handlePendingWrites_finish K q n w ok s
      | PW_ERASING q n \<Rightarrow> handlePendingWrites_erase q n s
      | _ \<Rightarrow> s)"

definition finish_wakelocks :: "u32 option \<Rightarrow> int \<Rightarrow> wakelock_pc
    \<Rightarrow> 'a wakelock_state_scheme \<Rightarrow> 'a wakelock_state_scheme" where
  "finish_wakelocks r now pc s =
     (case pc of
        WL_STOPPED \<Rightarrow> s
      | WL_WAITING \<Rightarrow> resetSharedWakelock now s
      | WL_READING _ \<Rightarrow> resetSharedWakelock now (handleWakelocks_read r s))"

text \<open>The messages that wake a thread up, wherever it is blocked.\<close>

definition wake_threads :: "nat \<Rightarrow> ('a, 'r) hal_proxy \<Rightarrow> ('a, 'r) hal_proxy" where
  "wake_threads numToRead s =
     (let s = (if mEventQueueFlag s \<and> mEventQueue s \<noteq> None
               then emit [FMQ_READ numToRead, WAKE_EVENTS_READ] s else s);
          s = (if mWakelockQueueFlag s \<and> mWakeLockQueue s
               then emit [WAKELOCK_QUEUE_WRITE 0, WAKE_DATA_WRITTEN] s else s)
      in emit [NOTIFY_WAKELOCK_CV, NOTIFY_EVENT_QUEUE_WRITE_CV] s)"

definition join_pending_writes :: "hal_consts \<Rightarrow> bool \<Rightarrow> ('a, 'r) hal_proxy \<Rightarrow> ('a, 'r) hal_proxy" where
  "join_pending_writes K ok s =
     (case mPendingWritesThread s of
        Some pc \<Rightarrow> (finish_pending_writes K ok pc s)\<lparr>mPendingWritesThread := None\<rparr>
      | None \<Rightarrow> s)"

definition join_wakelocks :: "u32 option \<Rightarrow> int \<Rightarrow> ('a, 'r) hal_proxy \<Rightarrow> ('a, 'r) hal_proxy" where
  "join_wakelocks r now s =
     (case mWakelockThread s of
        Some pc \<Rightarrow> (finish_wakelocks r now pc s)\<lparr>mWakelockThread := None\<rparr>
      | None \<Rightarrow> s)"

definition stopThreads :: "hal_consts \<Rightarrow> stop_env \<Rightarrow> ('a, 'r) hal_proxy \<Rightarrow> ('a, 'r) hal_proxy" where
  "stopThreads K env s =
     (let s = s\<lparr>mThreadsRun := False\<rparr>;
          s = wake_threads (availableToRead env) s;
          s = join_pending_writes K (last_write_succeeds env) s
      in join_wakelocks (last_wakelock_read env) (last_reset_now env) s)"

text \<open>The destructor.\<close>

definition destroy_HalProxy :: "hal_consts \<Rightarrow> stop_env \<Rightarrow> ('a, 'r) hal_proxy \<Rightarrow> ('a, 'r) hal_proxy" where
  "destroy_HalProxy K env s = stopThreads K env s"

subsection \<open>Initialising\<close>

record start_env =
  stopping :: stop_env
  start_now :: int
  createEventFlag_ok :: bool
  createWakelockFlag_ok :: bool

text \<open>The loop that initialises the sub-HALs: the last result that is not \<open>OK\<close> stays.\<close>

definition initialize_sub_hals :: "'r sub_hal_ops \<Rightarrow> result \<times> ('a, 'r) hal_proxy
    \<Rightarrow> result \<times> ('a, 'r) hal_proxy" where
  "initialize_sub_hals ops = (\<lambda>(result, s).
     fold (\<lambda>i (result, s).
            let (currRes, s) = call_sub_hal i (sub_initialize ops i) s
            in (if currRes \<noteq> OK then currRes else result, s))
       [0 ..< length (mSubHalList s)] (result, s))"

text \<open>
  The queues are given by the capacity of the event queue; the callers never pass null
  pointers.  A flag that could not be created is a null pointer.
\<close>

definition initializeCommon :: "hal_consts \<Rightarrow> 'r sub_hal_ops \<Rightarrow> start_env \<Rightarrow> nat
    \<Rightarrow> ('a, 'r) hal_proxy \<Rightarrow> result \<times> ('a, 'r) hal_proxy" where
  "initializeCommon K ops env eventQueue s =
     (let result = OK;
          s = stopThreads K (stopping env) s;
          s = resetSharedWakelock (start_now env) s;
          s = disableAllSensors K ops s;
          s = s\<lparr>mPendingWriteEventsQueue := [], mSizePendingWriteEventsQueue := 0\<rparr>;
          s = s\<lparr>mDynamicSensors := []\<rparr>;
          s = s\<lparr>mDynamicSensorsCallback := True\<rparr>;
          s = s\<lparr>mEventQueue := Some eventQueue, mWakeLockQueue := True\<rparr>;
          s = s\<lparr>mEventQueueFlag := createEventFlag_ok env,
                mWakelockQueueFlag := createWakelockFlag_ok env\<rparr>;
          result = (if \<not> createEventFlag_ok env then BAD_VALUE else result);
          result = (if \<not> createWakelockFlag_ok env then BAD_VALUE else result);
          result = (if \<not> mDynamicSensorsCallback s \<or> mEventQueue s = None \<or> \<not> mWakeLockQueue s
                       \<or> \<not> mEventQueueFlag s
                    then BAD_VALUE else result);
          s = s\<lparr>mThreadsRun := True\<rparr>;
          s = s\<lparr>mPendingWritesThread := Some PW_WAITING, mWakelockThread := Some WL_WAITING\<rparr>;
          (result, s) = initialize_sub_hals ops (result, s)
      in (result, s\<lparr>mCurrentOperationMode := NORMAL\<rparr>))"

text \<open>
  The two callers wrap the queues and the callback for their version of the interface; the
  wrappers are outside the repository, and the capacity is what is left of the descriptor.
\<close>

definition initialize_2_1 :: "hal_consts \<Rightarrow> 'r sub_hal_ops \<Rightarrow> start_env \<Rightarrow> ('d \<Rightarrow> nat) \<Rightarrow> 'd
    \<Rightarrow> ('a, 'r) hal_proxy \<Rightarrow> result \<times> ('a, 'r) hal_proxy" where
  "initialize_2_1 K ops env capacity eventQueueDescriptor s =
     initializeCommon K ops env (capacity eventQueueDescriptor) s"

definition initialize :: "hal_consts \<Rightarrow> 'r sub_hal_ops \<Rightarrow> start_env \<Rightarrow> ('d \<Rightarrow> nat) \<Rightarrow> 'd
    \<Rightarrow> ('a, 'r) hal_proxy \<Rightarrow> result \<times> ('a, 'r) hal_proxy" where
  "initialize K ops env capacity eventQueueDescriptor s =
     initializeCommon K ops env (capacity eventQueueDescriptor) s"

subsection \<open>What the steps leave alone\<close>

text \<open>The parts of the state that sub-HALs and handles see.\<close>

definition hal_view :: "('a, 'r) hal_proxy \<Rightarrow> 'r sub_hal list \<times> sensor_info i32_map
    \<times> nat option \<times> operation_mode" where
  "hal_view s = (mSubHalList s, mDynamicSensors s, mDirectChannelSubHal s, mCurrentOperationMode s)"

lemma wakelock_ops_view [simp]:
  "hal_view (emit cs s) = hal_view s"
  "hal_view (decrementRefCountAndMaybeReleaseWakelock d t s) = hal_view s"
  "hal_view (resetSharedWakelock now s) = hal_view s"
  "hal_view (handleWakelocks_read r s) = hal_view s"
  by (simp_all add: hal_view_def wakelock_defs handleWakelocks_read_def split: option.split)

lemma count_view [simp]: "hal_view (snd (countNumWakeupEvents K es n s)) = hal_view s"
  by (simp add: hal_view_def countNumWakeupEvents_def case_prod_unfold Let_def)

lemma hal_view_updates [simp]:
  "hal_view (s\<lparr>mSizePendingWriteEventsQueue := n\<rparr>) = hal_view s"
  "hal_view (s\<lparr>mPendingWriteEventsQueue := q\<rparr>) = hal_view s"
  "hal_view (s\<lparr>mThreadsRun := b\<rparr>) = hal_view s"
  "hal_view (s\<lparr>mPendingWritesThread := p\<rparr>) = hal_view s"
  "hal_view (s\<lparr>mWakelockThread := w\<rparr>) = hal_view s"
  by (simp_all add: hal_view_def)

lemma finish_view [simp]:
  "hal_view (handlePendingWrites_written K q n w ok s) = hal_view s"
  "hal_view (handlePendingWrites_erase q n s) = hal_view s"
  "hal_view (handlePendingWrites_finish K q n w ok s) = hal_view s"
  by (simp_all add: handlePendingWrites_finish_def handlePendingWrites_written_def
      handlePendingWrites_erase_def Let_def case_prod_unfold split: list.split)

lemma stop_parts_view [simp]:
  "hal_view (wake_threads n s) = hal_view s"
  "hal_view (join_pending_writes K ok s) = hal_view s"
  "hal_view (join_wakelocks r now s) = hal_view s"
    apply (simp add: wake_threads_def Let_def)
   apply (simp add: join_pending_writes_def finish_pending_writes_def split: option.split pending_pc.split)
  apply (simp add: join_wakelocks_def finish_wakelocks_def split: option.split wakelock_pc.split)
  done

lemma stop_view: "hal_view (stopThreads K env s) = hal_view s"
  by (simp add: stopThreads_def Let_def)

text \<open>With the threads told to stop, the wake lock count and the kernel lock stay.\<close>

definition lock_view :: "'a wakelock_state_scheme \<Rightarrow> bool \<times> size_t \<times> bool" where
  "lock_view s = (mThreadsRun s, mWakelockRefCount s, wakelock_held (calls s))"

lemma lock_view_run: "lock_view s = lock_view t \<Longrightarrow> mThreadsRun s = mThreadsRun t"
  by (simp add: lock_view_def)

lemma stopped_lock_view:
  assumes "\<not> mThreadsRun s"
  shows "lock_view (resetSharedWakelock now s) = lock_view s"
    and "lock_view (handleWakelocks_read r s) = lock_view s"
  using assms
  by (simp_all add: lock_view_def resetSharedWakelock_def handleWakelocks_read_def
      split: option.split)

lemma erase_lock_view: "lock_view (handlePendingWrites_erase q n s) = lock_view s"
  by (simp add: handlePendingWrites_erase_def lock_view_def Let_def split: list.split)

lemma finish_stopped:
  assumes "\<not> mThreadsRun s"
  shows "lock_view (handlePendingWrites_finish K q n w ok s) = lock_view s"
  unfolding handlePendingWrites_finish_def erase_lock_view
  using assms
  by (simp add: handlePendingWrites_written_def lock_view_def Let_def case_prod_unfold
      wakelock_held_def split: list.split)

lemma stop_parts_lock:
  assumes "\<not> mThreadsRun s"
  shows "lock_view (wake_threads n s) = lock_view s"
    and "lock_view (join_pending_writes K ok s) = lock_view s"
    and "lock_view (join_wakelocks r now s) = lock_view s"
proof -
  show "lock_view (wake_threads n s) = lock_view s"
    by (simp add: wake_threads_def lock_view_def wakelock_held_def Let_def)
  have upd: "lock_view (t\<lparr>mPendingWritesThread := p\<rparr>) = lock_view t"
    "lock_view (t\<lparr>mWakelockThread := w\<rparr>) = lock_view t" for p w and t :: "('a, 'b) hal_proxy"
    by (simp_all add: lock_view_def)
  show "lock_view (join_pending_writes K ok s) = lock_view s"
    using finish_stopped [OF assms]
    by (simp add: join_pending_writes_def finish_pending_writes_def upd erase_lock_view
        split: option.split pending_pc.split)
  have "lock_view (finish_wakelocks r now pc s) = lock_view s" for pc
    using stopped_lock_view [OF assms] assms lock_view_run [OF stopped_lock_view(2) [OF assms]]
    by (cases pc) (simp_all add: finish_wakelocks_def stopped_lock_view)
  then show "lock_view (join_wakelocks r now s) = lock_view s"
    by (simp add: join_wakelocks_def upd split: option.split)
qed

lemma stop_lock:
  "mWakelockRefCount (stopThreads K env s) = mWakelockRefCount s"
  "wakelock_held (calls (stopThreads K env s)) = wakelock_held (calls s)"
  "\<not> mThreadsRun (stopThreads K env s)"
proof -
  let ?s0 = "s\<lparr>mThreadsRun := False\<rparr>"
  let ?s1 = "wake_threads (availableToRead env) ?s0"
  let ?s2 = "join_pending_writes K (last_write_succeeds env) ?s1"
  have 1: "lock_view ?s1 = lock_view ?s0" by (rule stop_parts_lock) simp
  then have "\<not> mThreadsRun ?s1" by (simp add: lock_view_def)
  then have 2: "lock_view ?s2 = lock_view ?s1" by (rule stop_parts_lock)
  with 1 have "\<not> mThreadsRun ?s2" by (simp add: lock_view_def)
  then have "lock_view (stopThreads K env s) = lock_view ?s2"
    unfolding stopThreads_def Let_def by (rule stop_parts_lock)
  with 1 2 have "lock_view (stopThreads K env s) = lock_view ?s0" by simp
  then show "mWakelockRefCount (stopThreads K env s) = mWakelockRefCount s"
    "wakelock_held (calls (stopThreads K env s)) = wakelock_held (calls s)"
    "\<not> mThreadsRun (stopThreads K env s)"
    by (simp_all add: lock_view_def)
qed

subsection \<open>Disabling and initialising\<close>

lemma activate_frame [simp, frame_simps]:
  "mSensors (snd (activate K ops h en s)) = mSensors s"
  "mDynamicSensors (snd (activate K ops h en s)) = mDynamicSensors s"
  by (simp_all add: activate_def)

definition disable_call :: "i32 \<Rightarrow> handle_call" where
  "disable_call h = Activate h False"

lemma disable_fold:
  "fold (\<lambda>(h, _) s. snd (activate K ops h False s)) m s
     = proxy_calls K ops id (map disable_call (map_keys m)) s"
  by (induction m arbitrary: s) (auto simp: map_keys_def disable_call_def)

lemma proxy_calls_append:
  "proxy_calls K ops conv (xs @ ys) s = proxy_calls K ops conv ys (proxy_calls K ops conv xs s)"
  by (induction xs arbitrary: s) simp_all

lemma disable_calls:
  "disableAllSensors K ops s
     = proxy_calls K ops id (map disable_call (map_keys (mSensors s) @ map_keys (mDynamicSensors s))) s"
proof -
  let ?s = "proxy_calls K ops id (map disable_call (map_keys (mSensors s))) s"
  obtain hals where "?s = s\<lparr>mSubHalList := hals\<rparr>"
    using proxy_calls_frame by blast
  then have "mDynamicSensors ?s = mDynamicSensors s" by simp
  then show ?thesis by (simp add: disableAllSensors_def disable_fold proxy_calls_append Let_def)
qed

text \<open>What \<open>disableAllSensors\<close> does to one sub-HAL.\<close>

definition disable_on :: "hal_consts \<Rightarrow> 'r sub_hal_ops \<Rightarrow> nat \<Rightarrow> i32 list \<Rightarrow> 'r sub_hal \<Rightarrow> 'r sub_hal" where
  "disable_on K ops j handles h =
     fold (\<lambda>k hal. snd (sub_activate ops (clearSubHalIndex K k) False hal))
       (filter (\<lambda>k. unat (extractSubHalIndex k) = j) handles) h"

lemma disable_on_calls:
  "fold (\<lambda>c hal. snd (sub_hal_call K ops conv c hal))
     (filter (\<lambda>c. permitted K mode c \<and> addressee c = j) (map disable_call ks)) h
   = disable_on K ops j ks h"
  unfolding disable_on_def
  by (induction ks arbitrary: h) (simp_all add: disable_call_def addressee_def)

lemma disable_nth:
  assumes "j < length (mSubHalList s)"
  shows "mSubHalList (disableAllSensors K ops s) ! j
       = disable_on K ops j (map_keys (mSensors s) @ map_keys (mDynamicSensors s)) (mSubHalList s ! j)"
proof -
  show ?thesis
    by (simp only: disable_calls proxy_calls_nth [OF assms] disable_on_calls)
qed

lemma disable_frame: "\<exists>hals. disableAllSensors K ops s = s\<lparr>mSubHalList := hals\<rparr>
    \<and> length hals = length (mSubHalList s)"
  by (simp add: disable_calls proxy_calls_frame)

text \<open>The loop over the sub-HALs.\<close>

definition last_failure :: "result \<Rightarrow> result list \<Rightarrow> result" where
  "last_failure r rs = fold (\<lambda>x r. if x \<noteq> OK then x else r) rs r"

lemma last_failure_OK: "last_failure r rs = OK \<longleftrightarrow> r = OK \<and> (\<forall>x \<in> set rs. x = OK)"
  by (induction rs arbitrary: r) (auto simp: last_failure_def)

lemma initialize_upto:
  fixes s :: "('a, 'r) hal_proxy" and n ops r
  defines "p \<equiv> fold (\<lambda>i (result, s). let (currRes, s) = call_sub_hal i (sub_initialize ops i) s
      in (if currRes \<noteq> OK then currRes else result, s)) [0 ..< n] (r, s)"
  assumes "n \<le> length (mSubHalList s)"
  shows "fst p = last_failure r (map (\<lambda>i. fst (sub_initialize ops i (mSubHalList s ! i))) [0 ..< n])
      \<and> snd p = s\<lparr>mSubHalList := mSubHalList (snd p)\<rparr>
      \<and> length (mSubHalList (snd p)) = length (mSubHalList s)
      \<and> (\<forall>j. mSubHalList (snd p) ! j = (if j < n then snd (sub_initialize ops j (mSubHalList s ! j))
                                     else mSubHalList s ! j))"
  using assms(2) unfolding p_def
proof (induction n)
  case (Suc n)
  let ?F = "\<lambda>i (result, s). let (currRes, s) = call_sub_hal i (sub_initialize ops i) s
      in (if currRes \<noteq> OK then currRes else result, s)"
  obtain r' t where q: "fold ?F [0 ..< n] (r, s) = (r', t)" by fastforce
  have IH: "r' = last_failure r (map (\<lambda>i. fst (sub_initialize ops i (mSubHalList s ! i))) [0 ..< n])"
    "t = s\<lparr>mSubHalList := mSubHalList t\<rparr>" "length (mSubHalList t) = length (mSubHalList s)"
    "\<And>j. mSubHalList t ! j = (if j < n then snd (sub_initialize ops j (mSubHalList s ! j))
                                else mSubHalList s ! j)"
    using Suc q by simp_all
  obtain c h where call: "sub_initialize ops n (mSubHalList s ! n) = (c, h)" by fastforce
  have "?F n (r', t) = (if c \<noteq> OK then c else r', t\<lparr>mSubHalList := (mSubHalList t)[n := h]\<rparr>)"
    using call IH(4) [of n] by (simp add: call_sub_hal_def Let_def)
  moreover have "t\<lparr>mSubHalList := hs\<rparr> = s\<lparr>mSubHalList := hs\<rparr>" for hs
    by (subst IH(2)) simp
  ultimately show ?case
    using q IH(1,3,4) call Suc.prems
    by (auto simp: last_failure_def nth_list_update less_Suc_eq)
qed (simp_all add: last_failure_def)

lemma initialize_sub_hals_spec:
  fixes s :: "('a, 'r) hal_proxy" and ops r
  defines "p \<equiv> initialize_sub_hals ops (r, s)"
  shows "fst p = last_failure r (map (\<lambda>i. fst (sub_initialize ops i (mSubHalList s ! i)))
                  [0 ..< length (mSubHalList s)])
      \<and> snd p = s\<lparr>mSubHalList := mSubHalList (snd p)\<rparr>
      \<and> length (mSubHalList (snd p)) = length (mSubHalList s)
      \<and> (\<forall>j < length (mSubHalList s).
           mSubHalList (snd p) ! j = snd (sub_initialize ops j (mSubHalList s ! j)))"
proof -
  let ?q = "fold (\<lambda>i (result, s). let (currRes, s) = call_sub_hal i (sub_initialize ops i) s
      in (if currRes \<noteq> OK then currRes else result, s)) [0 ..< length (mSubHalList s)] (r, s)"
  have p: "p = ?q" by (simp add: p_def initialize_sub_hals_def)
  note q = initialize_upto [where s = s and r = r and ops = ops, OF order_refl]
  show ?thesis unfolding p
    by (intro conjI allI impI) (use q in blast, use q in blast, use q in blast, use q in presburger)
qed

subsection \<open>The whole initialisation\<close>

text \<open>The state and the result before the sub-HALs are initialised.\<close>

definition flags_result :: "start_env \<Rightarrow> result" where
  "flags_result env = (if createEventFlag_ok env \<and> createWakelockFlag_ok env then OK else BAD_VALUE)"

definition quiet :: "hal_consts \<Rightarrow> 'r sub_hal_ops \<Rightarrow> start_env \<Rightarrow> ('a, 'r) hal_proxy \<Rightarrow> ('a, 'r) hal_proxy" where
  "quiet K ops env s =
     disableAllSensors K ops (resetSharedWakelock (start_now env) (stopThreads K (stopping env) s))"

definition restarted :: "start_env \<Rightarrow> nat \<Rightarrow> ('a, 'r) hal_proxy \<Rightarrow> ('a, 'r) hal_proxy" where
  "restarted env q s = s
     \<lparr>mPendingWriteEventsQueue := [], mSizePendingWriteEventsQueue := 0, mDynamicSensors := [],
      mDynamicSensorsCallback := True, mEventQueue := Some q, mWakeLockQueue := True,
      mEventQueueFlag := createEventFlag_ok env, mWakelockQueueFlag := createWakelockFlag_ok env,
      mThreadsRun := True, mPendingWritesThread := Some PW_WAITING, mWakelockThread := Some WL_WAITING\<rparr>"

lemma initializeCommon_parts:
  "initializeCommon K ops env q s =
     (let (r, t) = initialize_sub_hals ops (flags_result env, restarted env q (quiet K ops env s))
      in (r, t\<lparr>mCurrentOperationMode := NORMAL\<rparr>))"
  by (simp add: initializeCommon_def flags_result_def restarted_def quiet_def)

lemma initializeCommon_result:
  fixes s :: "('a, 'r) hal_proxy" and env q K ops
  defines "u \<equiv> restarted env q (quiet K ops env s)"
  shows "fst (initializeCommon K ops env q s)
         = last_failure (flags_result env)
             (map (\<lambda>i. fst (sub_initialize ops i (mSubHalList u ! i))) [0 ..< length (mSubHalList u)])
       \<and> snd (initializeCommon K ops env q s)
         = u\<lparr>mSubHalList := mSubHalList (snd (initializeCommon K ops env q s)),
             mCurrentOperationMode := NORMAL\<rparr>
       \<and> length (mSubHalList (snd (initializeCommon K ops env q s))) = length (mSubHalList u)
       \<and> (\<forall>j < length (mSubHalList u).
            mSubHalList (snd (initializeCommon K ops env q s)) ! j
              = snd (sub_initialize ops j (mSubHalList u ! j)))"
proof -
  let ?p = "initialize_sub_hals ops (flags_result env, u)"
  have c: "initializeCommon K ops env q s = (fst ?p, (snd ?p)\<lparr>mCurrentOperationMode := NORMAL\<rparr>)"
    by (simp add: initializeCommon_parts u_def case_prod_unfold Let_def)
  note p = initialize_sub_hals_spec [where s = u and ops = ops and r = "flags_result env"]
  have upd: "snd ?p = u\<lparr>mSubHalList := mSubHalList (snd ?p)\<rparr>"
    using p by blast
  have "(snd ?p)\<lparr>mCurrentOperationMode := NORMAL\<rparr>
      = u\<lparr>mSubHalList := mSubHalList (snd ?p), mCurrentOperationMode := NORMAL\<rparr>"
    by (subst upd) simp
  then show ?thesis using p by (simp add: c)
qed

lemma quiet_frame:
  "\<exists>hals. quiet K ops env s
     = (resetSharedWakelock (start_now env) (stopThreads K (stopping env) s))\<lparr>mSubHalList := hals\<rparr>
     \<and> length hals = length (mSubHalList s)"
  using disable_frame [of K ops "resetSharedWakelock (start_now env) (stopThreads K (stopping env) s)"]
    stop_view [of K "stopping env" s] wakelock_ops_view(3) [of "start_now env" "stopThreads K (stopping env) s"]
  by (auto simp: quiet_def hal_view_def)

text \<open>The handles that are disabled: the sensors, and the dynamic sensors.\<close>

definition known_handles :: "hal_consts \<Rightarrow> stop_env \<Rightarrow> ('a, 'r) hal_proxy \<Rightarrow> i32 list" where
  "known_handles K env s =
     map_keys (mSensors (stopThreads K env s)) @ map_keys (mDynamicSensors s)"

lemma quiet_nth:
  assumes "j < length (mSubHalList s)"
  shows "mSubHalList (restarted env q (quiet K ops env s)) ! j
       = disable_on K ops j (known_handles K (stopping env) s) (mSubHalList s ! j)"
  using assms stop_view [of K "stopping env" s]
    wakelock_ops_view(3) [of "start_now env" "stopThreads K (stopping env) s"]
  by (simp add: restarted_def quiet_def hal_view_def disable_nth known_handles_def)

lemma restarted_length: "length (mSubHalList (restarted env q (quiet K ops env s))) = length (mSubHalList s)"
  using quiet_frame [of K ops env s] by (auto simp: restarted_def)

lemma initialized_state:
  "\<exists>hals. snd (initializeCommon K ops env q s)
     = (restarted env q (quiet K ops env s))\<lparr>mSubHalList := hals, mCurrentOperationMode := NORMAL\<rparr>"
  using initializeCommon_result [where K = K and ops = ops and env = env and q = q and s = s] by blast

lemma initialized_lock:
  "mWakelockRefCount (snd (initializeCommon K ops env q s)) = mWakelockRefCount s"
  "wakelock_held (calls (snd (initializeCommon K ops env q s))) = wakelock_held (calls s)"
proof -
  let ?v = "stopThreads K (stopping env) s"
  obtain hals where t: "snd (initializeCommon K ops env q s)
      = (restarted env q (quiet K ops env s))\<lparr>mSubHalList := hals, mCurrentOperationMode := NORMAL\<rparr>"
    using initialized_state by blast
  obtain hals' where u: "quiet K ops env s = (resetSharedWakelock (start_now env) ?v)\<lparr>mSubHalList := hals'\<rparr>"
    using quiet_frame by blast
  have "lock_view (resetSharedWakelock (start_now env) ?v) = lock_view ?v"
    by (rule stopped_lock_view(1)) (rule stop_lock(3))
  then show "mWakelockRefCount (snd (initializeCommon K ops env q s)) = mWakelockRefCount s"
    "wakelock_held (calls (snd (initializeCommon K ops env q s))) = wakelock_held (calls s)"
    by (simp_all add: t u restarted_def lock_view_def stop_lock)
qed

subsection \<open>Properties\<close>

text \<open>
  After an initialisation nothing of the time before is left: no pending events, no
  dynamic sensors, the count of pending events consistent, the queue the new one, the
  operation mode normal, and both threads at their start with permission to run.
\<close>

lemma initialize_fresh_start:
  "let t = snd (initializeCommon K ops env q s)
   in mPendingWriteEventsQueue t = [] \<and> mSizePendingWriteEventsQueue t = 0 \<and> delivery_inv K t
      \<and> mDynamicSensors t = [] \<and> mCurrentOperationMode t = NORMAL
      \<and> mEventQueue t = Some q \<and> mThreadsRun t
      \<and> mPendingWritesThread t = Some PW_WAITING \<and> mWakelockThread t = Some WL_WAITING"
proof -
  obtain hals where "snd (initializeCommon K ops env q s)
      = (restarted env q (quiet K ops env s))\<lparr>mSubHalList := hals, mCurrentOperationMode := NORMAL\<rparr>"
    using initialized_state by blast
  then show ?thesis by (simp add: restarted_def delivery_inv_def backlog_def)
qed

text \<open>
  C20: every sub-HAL is brought to rest before it is initialised.  Each sub-HAL is first told
  to disable, by its own handles, every sensor and dynamic sensor of it that the proxy
  knows, and then is initialised with its index in the list, once.
\<close>

theorem sub_hals_disabled_then_initialized:
  assumes "j < length (mSubHalList s)"
  shows "mSubHalList (snd (initializeCommon K ops env q s)) ! j
       = snd (sub_initialize ops j
           (disable_on K ops j (known_handles K (stopping env) s) (mSubHalList s ! j)))"
  using initializeCommon_result [where K = K and ops = ops and env = env and q = q and s = s]
    quiet_nth [OF assms, of env q K ops] restarted_length [of env q K ops s] assms
  by simp

definition example_start :: start_env where
  "example_start =
     \<lparr>stopping = \<lparr>availableToRead = 0, last_write_succeeds = True, last_wakelock_read = None,
                  last_reset_now = 90\<rparr>,
      start_now = 91, createEventFlag_ok = True, createWakelockFlag_ok = True\<rparr>"

theorem sub_hals_disabled_then_initialized_witness:
  "mSubHalList (snd (initializeCommon example_consts example_ops example_start 8
      (example_proxy [[example_sensor 1 0], [example_sensor 7 0]]))) ! 1
     = snd (sub_initialize example_ops 1
         (disable_on example_consts example_ops 1
           (known_handles example_consts (stopping example_start)
             (example_proxy [[example_sensor 1 0], [example_sensor 7 0]]))
           (mSubHalList (example_proxy [[example_sensor 1 0], [example_sensor 7 0]]) ! 1)))"
  by (rule sub_hals_disabled_then_initialized) (simp add: example_proxy_def)

text \<open>
  C21: the result is \<open>OK\<close> exactly when both event flags were created and every sub-HAL could
  be initialised; if a sub-HAL failed, it is the result of the last one that did; a failure
  of one does not keep the others from being initialised.
\<close>

theorem initialize_result:
  assumes "rs = map (\<lambda>i. fst (sub_initialize ops i
                 (disable_on K ops i (known_handles K (stopping env) s) (mSubHalList s ! i))))
               [0 ..< length (mSubHalList s)]"
  shows "(fst (initializeCommon K ops env q s) = OK
            \<longleftrightarrow> createEventFlag_ok env \<and> createWakelockFlag_ok env \<and> set rs \<subseteq> {OK})
       \<and> (\<forall>before r after. rs = before @ r # after \<and> r \<noteq> OK \<and> set after \<subseteq> {OK}
            \<longrightarrow> fst (initializeCommon K ops env q s) = r)"
proof -
  have r: "fst (initializeCommon K ops env q s) = last_failure (flags_result env) rs"
  proof -
    let ?u = "restarted env q (quiet K ops env s)"
    have "map (\<lambda>i. fst (sub_initialize ops i (mSubHalList ?u ! i))) [0 ..< length (mSubHalList s)] = rs"
      unfolding assms by (rule map_cong [OF refl]) (simp add: quiet_nth)
    then show ?thesis
      using initializeCommon_result [where K = K and ops = ops and env = env and q = q and s = s]
        restarted_length [of env q K ops s] by simp
  qed
  have "last_failure r (before @ x # after) = x" if "x \<noteq> OK" and "set after \<subseteq> {OK}"
    for r x before after
  proof -
    have "last_failure y after = y" for y
      using that(2) by (induction after) (simp_all add: last_failure_def)
    then show ?thesis using that(1) by (simp add: last_failure_def)
  qed
  then show ?thesis by (auto simp: r last_failure_OK flags_result_def)
qed

theorem initialize_result_witness:
  "fst (initializeCommon example_consts (example_ops\<lparr>sub_initialize := \<lambda>i s. (OTHER_RESULT (- 5), s)\<rparr>)
      example_start 8 (example_proxy [[example_sensor 1 0]])) = OTHER_RESULT (- 5)"
proof -
  have "\<forall>before r after. [OTHER_RESULT (- 5)] = before @ r # after \<and> r \<noteq> OK \<and> set after \<subseteq> {OK}
      \<longrightarrow> fst (initializeCommon example_consts (example_ops\<lparr>sub_initialize := \<lambda>i s. (OTHER_RESULT (- 5), s)\<rparr>)
            example_start 8 (example_proxy [[example_sensor 1 0]])) = r"
    by (rule initialize_result [THEN conjunct2])
      (simp add: example_proxy_def)
  from this [rule_format, of "[]" "OTHER_RESULT (- 5)" "[]"] show ?thesis by simp
qed

text \<open>
  An initialisation does not give the wake lock back.  Although it calls
  \<open>resetSharedWakelock\<close>, and the wake lock thread calls it on its way out, the reference
  count and the kernel lock after it are those before it, because the threads have been
  told to stop first and then the decrement does nothing: the count of the earlier client's
  events is carried over.
\<close>

lemma initialize_keeps_wakelock:
  "mWakelockRefCount (snd (initializeCommon K ops env q s)) = mWakelockRefCount s
   \<and> wakelock_held (calls (snd (initializeCommon K ops env q s))) = wakelock_held (calls s)"
  by (simp add: initialized_lock)

end
