(* ===== verification/Als_Correction.thy ===== *)
theory Als_Correction
  imports Sensor_Types
begin

text \<open>
  \<open>AlsCorrection.cpp\<close>: the light sensor sits under the display, and its readings are
  corrected by an estimate of the light the display adds above it.

  The arithmetic is that of the code: \<open>float\<close> where both operands are \<open>float\<close>, \<open>double\<close>
  where one is, rounded to \<open>float\<close> at an assignment, without contraction to fused operations.
  What the code asks from outside is an input: the clock, the files of the kernel and the
  properties, as what \<open>operator>>\<close> extracts from them, and the picture service.
  \<open>std::pow\<close>, whose result the standard leaves to the implementation, is a parameter.
\<close>

subsection \<open>Reading numbers\<close>

text \<open>
  The fields of a text as the extractions of a stream find them, one after the other: a
  number, or text that sets the failure bit and stores the given value.
\<close>

datatype extraction = Field fl | Bad fl

text \<open>
  \<open>is >> x[0] >> x[1] >> \<dots>\<close>: at the end of the text nothing is stored, and after a failure
  the other variables keep their values.  A \<open>float\<close> is extracted as a \<open>float\<close>.
\<close>

fun extract_fields :: "fl list \<Rightarrow> extraction list \<Rightarrow> fl list" where
  "extract_fields [] fs = []"
| "extract_fields (x # xs) [] = x # xs"
| "extract_fields (x # xs) (Field v # fs) = to_float v # extract_fields xs fs"
| "extract_fields (x # xs) (Bad v # fs) = to_float v # xs"

text \<open>\<open>get<double> (path, def)\<close>; a file that cannot be opened has no fields.\<close>

definition get :: "extraction list \<Rightarrow> fl \<Rightarrow> fl" where
  "get file def = (case file of Field result # _ \<Rightarrow> result | _ \<Rightarrow> def)"

subsection \<open>State\<close>

record als_config =
  hbr :: bool
  rgbw_max_lux :: "fl list"
  rgbw_max_lux_div :: "fl list"
  rgbw_lux_postmul :: "fl list"
  rgbw_poly :: "fl list list"
  grayscale_weights :: "fl list"
  sensor_gaincal_points :: "fl list"
  sensor_inverse_gain :: "fl list"
  agc_threshold :: fl
  calib_gain :: fl
  bias :: fl
  max_brightness :: fl

record hysteresis_range =
  middle :: fl
  range_min :: fl
  range_max :: fl

definition hysteresis_ranges_initially :: "hysteresis_range list" where
  "hysteresis_ranges_initially = map (\<lambda>(m, a, b). \<lparr>middle = m, range_min = a, range_max = b\<rparr>)
     [(Fin 0, Fin 0, Fin 4),
      (Fin 7, Fin 1, Fin 12),
      (Fin 15, Fin 5, Fin 30),
      (Fin 30, Fin 10, Fin 50),
      (Fin 360, Fin 25, Fin 700),
      (Fin 1200, Fin 300, Fin 1600),
      (Fin 2250, Fin 1000, Fin 2940),
      (Fin 4600, Fin 2000, Fin 5900),
      (Fin 10000, Fin 4000, Fin 80000),
      (PInf, Fin 8000, PInf)]"

record als_state =
  last_update :: int
  last_forced_update :: int
  force_update :: bool
  hyst_min :: fl
  hyst_max :: fl
  last_corrected_value :: fl
  last_agc_gain :: fl

definition als_state_initially :: als_state where
  "als_state_initially =
     \<lparr>last_update = 0, last_forced_update = 0, force_update = True,
      hyst_min = Fin (- 1), hyst_max = Fin (- 1), last_corrected_value = Fin 0,
      last_agc_gain = Fin 0\<rparr>"

text \<open>An object with static storage is zero before \<open>init\<close>.\<close>

definition als_config_initially :: als_config where
  "als_config_initially =
     \<lparr>hbr = False, rgbw_max_lux = replicate 4 (Fin 0), rgbw_max_lux_div = replicate 4 (Fin 0),
      rgbw_lux_postmul = replicate 4 (Fin 0), rgbw_poly = replicate 4 (replicate 4 (Fin 0)),
      grayscale_weights = replicate 3 (Fin 0), sensor_gaincal_points = replicate 4 (Fin 0),
      sensor_inverse_gain = replicate 4 (Fin 0), agc_threshold = Fin 0, calib_gain = Fin 0,
      bias = Fin 0, max_brightness = Fin 0\<rparr>"

text \<open>
  The static objects of the file.  \<open>service\<close> is whether the pointer is set.  The static
  \<open>screenshot\<close> of \<open>process\<close> is only read after the call that fills it, so it is the result
  of this call here.
\<close>

record als_statics =
  conf :: als_config
  state :: als_state
  hysteresis_ranges :: "hysteresis_range list"
  service :: bool

definition als_initially :: als_statics where
  "als_initially =
     \<lparr>conf = als_config_initially, state = als_state_initially,
      hysteresis_ranges = hysteresis_ranges_initially, service = False\<rparr>"

abbreviation f32_add :: "fl \<Rightarrow> fl \<Rightarrow> fl" where "f32_add \<equiv> fadd binary32"
abbreviation f32_sub :: "fl \<Rightarrow> fl \<Rightarrow> fl" where "f32_sub \<equiv> fsub binary32"
abbreviation f32_mul :: "fl \<Rightarrow> fl \<Rightarrow> fl" where "f32_mul \<equiv> fmul binary32"
abbreviation f32_div :: "fl \<Rightarrow> fl \<Rightarrow> fl" where "f32_div \<equiv> fdiv binary32"
abbreviation f64_sub :: "fl \<Rightarrow> fl \<Rightarrow> fl" where "f64_sub \<equiv> fsub binary64"
abbreviation f64_mul :: "fl \<Rightarrow> fl \<Rightarrow> fl" where "f64_mul \<equiv> fmul binary64"
abbreviation f64_div :: "fl \<Rightarrow> fl \<Rightarrow> fl" where "f64_div \<equiv> fdiv binary64"
abbreviation f64 :: "rat \<Rightarrow> fl" where "f64 \<equiv> rnd binary64"

subsection \<open>Initialisation\<close>

definition ALS_CALI_DIR :: string where
  "ALS_CALI_DIR = ''/proc/sensor/als_cali/''"

definition BRIGHTNESS_DIR :: string where
  "BRIGHTNESS_DIR = ''/sys/class/backlight/panel0-backlight/''"

definition rgbw_max_lux_paths :: "string list" where
  "rgbw_max_lux_paths = [ALS_CALI_DIR @ ''red_max_lux'', ALS_CALI_DIR @ ''green_max_lux'',
     ALS_CALI_DIR @ ''blue_max_lux'', ALS_CALI_DIR @ ''white_max_lux'']"

text \<open>What \<open>init\<close> finds outside: the properties, the files by their paths, and the service.\<close>

record init_env =
  property_hbr :: bool
  property_bias :: int
  property_rgbw_max_lux_div :: "extraction list"
  property_rgbw_poly :: "nat \<Rightarrow> extraction list"
  property_grayscale_weights :: "extraction list"
  property_sensor_gaincal_points :: "extraction list"
  property_sensor_inverse_gain :: "extraction list"
  file_fields :: "string \<Rightarrow> extraction list"
  service_isDeclared :: bool
  waitForService_gives :: bool

definition init_properties :: "init_env \<Rightarrow> als_config \<Rightarrow> als_config" where
  "init_properties env c = c
     \<lparr>hbr := property_hbr env,
      bias := to_float (Fin (of_int (property_bias env))),
      rgbw_max_lux_div := extract_fields (rgbw_max_lux_div c) (property_rgbw_max_lux_div env),
      rgbw_poly := map (\<lambda>i. extract_fields (rgbw_poly c ! i) (property_rgbw_poly env (i + 1))) [0 ..< 4],
      grayscale_weights := extract_fields (grayscale_weights c) (property_grayscale_weights env),
      sensor_gaincal_points := extract_fields (sensor_gaincal_points c) (property_sensor_gaincal_points env),
      sensor_inverse_gain := extract_fields (sensor_inverse_gain c) (property_sensor_inverse_gain env)\<rparr>"

text \<open>The body of the loop over the four colours.\<close>

definition init_lux :: "init_env \<Rightarrow> nat \<Rightarrow> fl \<times> als_config \<Rightarrow> fl \<times> als_config" where
  "init_lux env i = (\<lambda>(rgbw_acc, c).
     (let max_lux = to_float (get (file_fields env (rgbw_max_lux_paths ! i)) (Fin 0));
          c = (if max_lux \<noteq> Fin 0 then c\<lparr>rgbw_max_lux := (rgbw_max_lux c)[i := max_lux]\<rparr> else c)
      in if i < 3 then
           (f32_add rgbw_acc (rgbw_max_lux c ! i),
            c\<lparr>rgbw_lux_postmul := (rgbw_lux_postmul c)
                 [i := f32_div (rgbw_max_lux c ! i) (rgbw_max_lux_div c ! i)]\<rparr>)
         else
           let rgbw_acc = f32_sub rgbw_acc (rgbw_max_lux c ! i)
           in (rgbw_acc,
               c\<lparr>rgbw_lux_postmul := (rgbw_lux_postmul c)
                   [i := f32_div rgbw_acc (rgbw_max_lux_div c ! i)]\<rparr>)))"

definition init_gains :: "init_env \<Rightarrow> als_config \<Rightarrow> als_config" where
  "init_gains env c =
     (let row_coe = to_float (get (file_fields env (ALS_CALI_DIR @ ''row_coe'')) (Fin 0));
          c = (if row_coe \<noteq> Fin 0
               then c\<lparr>sensor_inverse_gain := (sensor_inverse_gain c)
                        [0 := to_float (f64_div row_coe (Fin 1000))]\<rparr>
               else c);
          c = c\<lparr>agc_threshold := to_float (f64_div (Fin 800) (sensor_inverse_gain c ! 0))\<rparr>;
          cali_coe = to_float (get (file_fields env (ALS_CALI_DIR @ ''cali_coe'')) (Fin 0));
          c = c\<lparr>calib_gain := to_float (if fless (Fin 0) cali_coe
                                       then f64_div cali_coe (Fin 1000) else Fin 1)\<rparr>
      in c\<lparr>max_brightness := to_float (get (file_fields env (BRIGHTNESS_DIR @ ''max_brightness'')) (Fin 1023))\<rparr>)"

definition scale_ranges :: "als_config \<Rightarrow> hysteresis_range list \<Rightarrow> hysteresis_range list" where
  "scale_ranges c ranges =
     (let gain = f32_mul (calib_gain c) (sensor_inverse_gain c ! 0);
          ranges = map (\<lambda>r. r\<lparr>range_min := f32_div (range_min r) gain,
                                     range_max := f32_div (range_max r) gain\<rparr>) ranges
      in ranges[0 := (ranges ! 0)\<lparr>range_min := Fin (- 1)\<rparr>])"

definition als_init :: "init_env \<Rightarrow> als_statics \<Rightarrow> als_statics" where
  "als_init env w =
     (let c = init_properties env (conf w);
          (rgbw_acc, c) = fold (init_lux env) [0 ..< 4] (Fin 0, c);
          c = init_gains env c
      in w\<lparr>conf := c,
           hysteresis_ranges := scale_ranges c (hysteresis_ranges w),
           service := (if service_isDeclared env then waitForService_gives env else service w)\<rparr>)"

subsection \<open>Correcting an event\<close>

text \<open>What \<open>process\<close> finds outside; \<open>area\<close> is \<open>None\<close> if the call to the service fails.\<close>

record als_env =
  als_now :: int
  file_brightness :: "extraction list"
  area :: "(fl \<times> fl \<times> fl) option"

definition remove_bias :: "als_config \<Rightarrow> event \<Rightarrow> event" where
  "remove_bias c event =
     (if fless (bias c) (u_scalar event)
      then event\<lparr>u_scalar := f32_sub (u_scalar event) (bias c)\<rparr> else event)"

text \<open>The times: the new state, and whether the event comes too fast.\<close>

definition throttle :: "int \<Rightarrow> fl \<Rightarrow> als_state \<Rightarrow> als_state \<times> bool" where
  "throttle now brightness st =
     (if last_update st = 0
      then (st\<lparr>last_update := now, last_forced_update := now\<rparr>, False)
      else
        let st = (if fless (Fin 0) brightness \<and> 3000000000 < now - last_forced_update st
                  then st\<lparr>last_forced_update := now, force_update := True\<rparr> else st)
        in if now - last_update st < 100000000 then (st, True)
           else (st\<lparr>last_update := now\<rparr>, False))"

definition update_needed :: "als_config \<Rightarrow> als_state \<Rightarrow> fl \<Rightarrow> bool" where
  "update_needed c st scalar =
     (let sensor_raw_calibrated = f32_mul (f32_mul scalar (calib_gain c)) (last_agc_gain st)
      in force_update st
         \<or> ((fless scalar (hyst_min st) \<or> fless (hyst_max st) scalar)
            \<and> (fless sensor_raw_calibrated (Fin 10)
               \<or> fless (f64_div (Fin 5) (f64 (7 / 100))) sensor_raw_calibrated)))"

text \<open>The inner loop over the coefficients of one colour.\<close>

definition poly_value :: "fl list \<Rightarrow> fl \<Rightarrow> fl" where
  "poly_value coefs x = fold (\<lambda>coef corr. f32_add (f32_mul corr x) coef) coefs (Fin 0)"

definition rgbw_of :: "als_config \<Rightarrow> fl \<times> fl \<times> fl \<Rightarrow> fl list" where
  "rgbw_of c = (\<lambda>(r, g, b).
     [r, g, b,
      f32_add (f32_add (f32_mul r (grayscale_weights c ! 0)) (f32_mul g (grayscale_weights c ! 1)))
        (f32_mul b (grayscale_weights c ! 2))])"

definition add_correction :: "als_config \<Rightarrow> fl list \<Rightarrow> nat \<Rightarrow> fl \<Rightarrow> fl" where
  "add_correction c rgbw i cumulative_correction =
     (let corr = f32_mul (poly_value (rgbw_poly c ! i) (rgbw ! i)) (rgbw_lux_postmul c ! i)
      in if i < 3 then f32_add cumulative_correction (fmax corr (Fin 0))
         else f32_sub cumulative_correction corr)"

text \<open>The correction, and the brightness of a white screen.\<close>

definition screen_light :: "(fl \<Rightarrow> fl \<Rightarrow> fl) \<Rightarrow> als_config \<Rightarrow> fl \<Rightarrow> fl \<times> fl \<times> fl \<Rightarrow> fl \<times> fl" where
  "screen_light pow c brightness screenshot =
     (let rgbw = rgbw_of c screenshot;
          cumulative_correction = fold (add_correction c rgbw) [0 ..< 4] (Fin 0);
          cumulative_correction = f32_mul cumulative_correction (f32_div brightness (max_brightness c));
          brightness_fullwhite =
            f32_div (f32_mul (rgbw_max_lux c ! 3) brightness) (max_brightness c);
          brightness_grayscale_gamma =
            to_float (f64_mul (pow (f64_div (rgbw ! 3) (Fin 255)) (f64 (22 / 10))) brightness_fullwhite);
          cumulative_correction = fmin cumulative_correction brightness_fullwhite;
          cumulative_correction = fmax cumulative_correction brightness_grayscale_gamma
      in (cumulative_correction, brightness_fullwhite))"

definition agc_gain_for :: "als_config \<Rightarrow> fl \<Rightarrow> fl \<Rightarrow> fl" where
  "agc_gain_for c sensor_raw_corrected data2 =
     (let agc_gain = sensor_inverse_gain c ! 0
      in if fless (agc_threshold c) sensor_raw_corrected then
           let gain_estimate =
                 (if hbr c then to_float (f64_div (f64_mul data2 (Fin 1000)) sensor_raw_corrected)
                  else f32_div sensor_raw_corrected data2)
           in fold (\<lambda>i agc_gain. if fless (sensor_gaincal_points c ! i) gain_estimate
                                then sensor_inverse_gain c ! i else agc_gain) [0 ..< 4] agc_gain
         else agc_gain)"

definition set_hysteresis :: "hysteresis_range list \<Rightarrow> fl \<Rightarrow> fl \<Rightarrow> als_state \<Rightarrow> als_state" where
  "set_hysteresis ranges sensor_corrected brightness_fullwhite st =
     (case find (\<lambda>r. fle sensor_corrected (middle r)) ranges of
        Some r \<Rightarrow> st\<lparr>hyst_min := range_min r,
                         hyst_max := f32_add (range_max r) brightness_fullwhite\<rparr>
      | None \<Rightarrow> st)"

text \<open>The part of \<open>process\<close> after the screenshot: the new value and state.\<close>

definition correct_value :: "(fl \<Rightarrow> fl \<Rightarrow> fl) \<Rightarrow> als_config \<Rightarrow> hysteresis_range list \<Rightarrow> fl
    \<Rightarrow> fl \<times> fl \<times> fl \<Rightarrow> fl \<Rightarrow> fl \<Rightarrow> als_state \<Rightarrow> fl \<times> als_state" where
  "correct_value pow c ranges brightness screenshot scalar data2 st =
     (let (cumulative_correction, brightness_fullwhite) = screen_light pow c brightness screenshot;
          sensor_raw_corrected = fmax (f32_sub scalar cumulative_correction) (Fin 0);
          agc_gain = agc_gain_for c sensor_raw_corrected data2;
          (value, st) =
            (if fle cumulative_correction (f64_mul scalar (f64 (135 / 100)))
                \<or> fless (f32_mul (f32_mul scalar (calib_gain c)) agc_gain) (Fin 10000)
                \<or> force_update st
             then
               let sensor_corrected = f32_mul (f32_mul sensor_raw_corrected (calib_gain c)) agc_gain;
                   st = st\<lparr>last_agc_gain := agc_gain\<rparr>;
                   st = set_hysteresis ranges sensor_corrected brightness_fullwhite st;
                   sensor_corrected =
                     to_float (fmax (f64_sub sensor_corrected (Fin 14)) (Fin 0))
               in (sensor_corrected, st\<lparr>last_corrected_value := sensor_corrected\<rparr>)
             else (last_corrected_value st, st))
      in (value, st\<lparr>force_update := False\<rparr>))"

definition als_process :: "(fl \<Rightarrow> fl \<Rightarrow> fl) \<Rightarrow> als_env \<Rightarrow> event \<Rightarrow> als_statics \<Rightarrow> event \<times> als_statics" where
  "als_process pow env event w =
     (let c = conf w;
          event = remove_bias c event;
          brightness = to_float (get (file_brightness env) (Fin 0));
          (st, too_fast) = throttle (als_now env) brightness (state w)
      in if too_fast then (event\<lparr>sensorHandle := 0\<rparr>, w\<lparr>state := st\<rparr>)
         else if update_needed c st (u_scalar event) then
           (case (if service w then area env else None) of
              None \<Rightarrow> (event\<lparr>sensorHandle := 0\<rparr>, w\<lparr>state := st\<rparr>)
            | Some screenshot \<Rightarrow>
                let (value, st) = correct_value pow c (hysteresis_ranges w) brightness screenshot
                                    (u_scalar event) (u_data2 event) st
                in (event\<lparr>u_scalar := value\<rparr>, w\<lparr>state := st\<rparr>))
         else (event\<lparr>u_scalar := last_corrected_value st\<rparr>, w\<lparr>state := st\<rparr>))"

text \<open>
  A sequence of events, each with what is found outside when it is processed.
\<close>

fun process_all :: "(fl \<Rightarrow> fl \<Rightarrow> fl) \<Rightarrow> (als_env \<times> event) list \<Rightarrow> als_statics
    \<Rightarrow> event list \<times> als_statics" where
  "process_all pow [] w = ([], w)"
| "process_all pow ((env, e) # xs) w =
     (let (e, w) = als_process pow env e w; (es, w) = process_all pow xs w in (e # es, w))"

end
