(* ===== verification/Light_Correction.thy ===== *)
theory Light_Correction
  imports Als_Correction Event_Delivery
begin

text \<open>
  What the light correction does to an event and to its state, and the interface through which
  \<open>postEventsToMessageQueue\<close> relies on it.
\<close>

subsection \<open>The interface\<close>

text \<open>
  What posting needs of a correction: it may change the value of an event, and mark it as
  dropped by setting its handle to zero, but nothing else.
\<close>

locale light_correction =
  fixes process :: "event \<Rightarrow> 'a \<Rightarrow> event \<times> 'a"
  assumes keeps_type: "sensorType (fst (process e w)) = sensorType e"
    and keeps_timestamp: "timestamp (fst (process e w)) = timestamp e"
    and keeps_dynamic: "u_dynamic_sensorHandle (fst (process e w)) = u_dynamic_sensorHandle e"
    and handle_or_zero: "sensorHandle (fst (process e w)) \<in> {sensorHandle e, 0}"
begin

lemma corrected_timestamps: "map timestamp (fst (correct_events process es w)) = map timestamp es"
  by (induction es arbitrary: w) (simp_all add: Let_def case_prod_unfold keeps_timestamp)

lemma corrected_types: "map sensorType (fst (correct_events process es w)) = map sensorType es"
  by (induction es arbitrary: w) (simp_all add: Let_def case_prod_unfold keeps_type)

lemma corrected_dynamic:
  "map u_dynamic_sensorHandle (fst (correct_events process es w)) = map u_dynamic_sensorHandle es"
  by (induction es arbitrary: w) (simp_all add: Let_def case_prod_unfold keeps_dynamic)

lemma corrected_handles:
  "list_all2 (\<lambda>e e'. sensorHandle e' = sensorHandle e
      \<or> sensorHandle e' = 0 \<and> sensorType e = SENSOR_TYPE_QTI_WISE_LIGHT)
     es (fst (correct_events process es w))"
proof (induction es arbitrary: w)
  case (Cons e es)
  then show ?case using handle_or_zero [of e w] by (simp add: Let_def case_prod_unfold)
qed simp

lemma corrected_others:
  "list_all2 (\<lambda>e e'. sensorType e \<noteq> SENSOR_TYPE_QTI_WISE_LIGHT \<longrightarrow> e' = e)
     es (fst (correct_events process es w))"
  by (induction es arbitrary: w) (simp_all add: Let_def case_prod_unfold)

lemma posted_timestamps: "map timestamp (posted_events process es s) = map timestamp es"
  by (simp add: posted_events_def corrected_timestamps)

end

subsection \<open>What a correction leaves alone\<close>

lemma remove_bias_frame [simp]:
  "sensorHandle (remove_bias c e) = sensorHandle e"
  "sensorType (remove_bias c e) = sensorType e"
  "timestamp (remove_bias c e) = timestamp e"
  "u_data2 (remove_bias c e) = u_data2 e"
  "u_dynamic_sensorHandle (remove_bias c e) = u_dynamic_sensorHandle e"
  by (simp_all add: remove_bias_def)

lemma set_hysteresis_frame [simp]:
  "last_update (set_hysteresis rs v b st) = last_update st"
  "last_forced_update (set_hysteresis rs v b st) = last_forced_update st"
  "force_update (set_hysteresis rs v b st) = force_update st"
  "last_corrected_value (set_hysteresis rs v b st) = last_corrected_value st"
  "last_agc_gain (set_hysteresis rs v b st) = last_agc_gain st"
  by (simp_all add: set_hysteresis_def split: option.splits)

lemma correct_value_frame [simp]:
  fixes pow c rs b x v d st
  defines "r \<equiv> correct_value pow c rs b x v d st"
  shows "last_update (snd r) = last_update st"
    and "last_forced_update (snd r) = last_forced_update st"
    and "\<not> force_update (snd r)"
    and "last_corrected_value (snd r) = fst r"
  by (simp_all add: r_def correct_value_def Let_def case_prod_unfold)

lemma throttle_frame [simp]:
  "hyst_min (fst (throttle now b st)) = hyst_min st"
  "hyst_max (fst (throttle now b st)) = hyst_max st"
  "last_corrected_value (fst (throttle now b st)) = last_corrected_value st"
  "last_agc_gain (fst (throttle now b st)) = last_agc_gain st"
  by (simp_all add: throttle_def Let_def)

text \<open>The cases of \<open>process\<close>: too fast, no picture, corrected, and the value of before.\<close>

lemma als_process_cases:
  fixes pow env e w
  defines "b \<equiv> to_float (get (file_brightness env) (Fin 0))"
  defines "st \<equiv> fst (throttle (als_now env) b (state w))"
  defines "e1 \<equiv> remove_bias (conf w) e"
  obtains
    (too_fast) "snd (throttle (als_now env) b (state w))"
      "als_process pow env e w = (e1\<lparr>sensorHandle := 0\<rparr>, w\<lparr>state := st\<rparr>)"
  | (no_picture) "\<not> snd (throttle (als_now env) b (state w))"
      "update_needed (conf w) st (u_scalar e1)" "service w \<longrightarrow> area env = None"
      "als_process pow env e w = (e1\<lparr>sensorHandle := 0\<rparr>, w\<lparr>state := st\<rparr>)"
  | (corrected) x v st' where "\<not> snd (throttle (als_now env) b (state w))"
      "update_needed (conf w) st (u_scalar e1)" "service w" "area env = Some x"
      "correct_value pow (conf w) (hysteresis_ranges w) b x (u_scalar e1) (u_data2 e1) st = (v, st')"
      "als_process pow env e w = (e1\<lparr>u_scalar := v\<rparr>, w\<lparr>state := st'\<rparr>)"
  | (cached) "\<not> snd (throttle (als_now env) b (state w))"
      "\<not> update_needed (conf w) st (u_scalar e1)"
      "als_process pow env e w = (e1\<lparr>u_scalar := last_corrected_value st\<rparr>, w\<lparr>state := st\<rparr>)"
proof -
  obtain t f where t: "throttle (als_now env) b (state w) = (t, f)" by fastforce
  note unfold = als_process_def Let_def b_def [symmetric] e1_def [symmetric] t st_def
  show thesis
  proof (cases f)
    case True
    then show thesis by (intro too_fast) (simp_all add: unfold)
  next
    case slow: False
    show thesis
    proof (cases "update_needed (conf w) t (u_scalar e1)")
      case False
      with slow show thesis by (intro cached) (simp_all add: unfold)
    next
      case True
      show thesis
      proof (cases "if service w then area env else None")
        case None
        with True slow show thesis
          by (intro no_picture) (auto simp: unfold split: if_splits)
      next
        case (Some x)
        then have "service w" and "area env = Some x" by (auto split: if_splits)
        moreover obtain v st' where
          "correct_value pow (conf w) (hysteresis_ranges w) b x (u_scalar e1) (u_data2 e1) t = (v, st')"
          by fastforce
        ultimately show thesis using True slow
          by (intro corrected [of x v st']) (simp_all add: unfold)
      qed
    qed
  qed
qed

lemma als_process_event:
  "sensorType (fst (als_process pow env e w)) = sensorType e"
  "timestamp (fst (als_process pow env e w)) = timestamp e"
  "u_data2 (fst (als_process pow env e w)) = u_data2 e"
  "u_dynamic_sensorHandle (fst (als_process pow env e w)) = u_dynamic_sensorHandle e"
  "sensorHandle (fst (als_process pow env e w)) \<in> {sensorHandle e, 0}"
  by (cases rule: als_process_cases [where env = env and w = w and e = e and pow = pow]; simp)+

lemma als_process_statics:
  "conf (snd (als_process pow env e w)) = conf w"
  "hysteresis_ranges (snd (als_process pow env e w)) = hysteresis_ranges w"
  "service (snd (als_process pow env e w)) = service w"
  by (cases rule: als_process_cases [where env = env and w = w and e = e and pow = pow]; simp)+

text \<open>
  As \<open>postEventsToMessageQueue\<close> calls it: each call finds the next input.
\<close>

definition als_process_next :: "(fl \<Rightarrow> fl \<Rightarrow> fl) \<Rightarrow> (nat \<Rightarrow> als_env) \<Rightarrow> event
    \<Rightarrow> als_statics \<times> nat \<Rightarrow> event \<times> als_statics \<times> nat" where
  "als_process_next pow inputs e =
     (\<lambda>(w, n). let (e, w) = als_process pow (inputs n) e w in (e, w, n + 1))"

interpretation als: light_correction "als_process_next pow inputs" for pow inputs
  by unfold_locales
    (simp_all add: als_process_next_def case_prod_unfold Let_def als_process_event
      als_process_event(5) [simplified])

end
