(* ===== verification/Dynamic_Sensors.thy ===== *)
theory Dynamic_Sensors
  imports Sensor_Registry
begin

text \<open>
  Sensors that a sub-HAL connects and disconnects while the proxy runs: the map
  \<open>mDynamicSensors\<close> and the two announcements to the framework.
\<close>

subsection \<open>Connecting\<close>

text \<open>The sensor as the proxy knows it.\<close>

definition with_index :: "size_t \<Rightarrow> sensor_info \<Rightarrow> sensor_info" where
  "with_index idx x = x\<lparr>info_sensorHandle := setSubHalIndex (info_sensorHandle x) idx\<rparr>"

lemma connect_loop_announced:
  "fst (connect_loop K idx xs m)
     = map (with_index idx) (filter (\<lambda>x. subHalIndexIsClear K (info_sensorHandle x)) xs)"
  by (induction xs arbitrary: m) (simp_all add: Let_def case_prod_unfold with_index_def)

lemma connect_loop_map:
  "snd (connect_loop K idx xs m)
     = fold (\<lambda>x. map_assign (info_sensorHandle x) x) (fst (connect_loop K idx xs m)) m"
  by (induction xs arbitrary: m) (simp_all add: Let_def case_prod_unfold)

lemma fold_assign_find:
  "map_find (fold (\<lambda>x. map_assign (info_sensorHandle x) x) xs m) h
     = (case List.find (\<lambda>x. info_sensorHandle x = h) (rev xs) of
          Some x \<Rightarrow> Some x | None \<Rightarrow> map_find m h)"
proof (induction xs rule: rev_induct)
  case (snoc x xs)
  then show ?case by (simp add: find_assign)
qed simp

lemma fold_assign_inv:
  "map_sorted m \<Longrightarrow> sensor_map.filed info_sensorHandle m \<Longrightarrow>
     map_sorted (fold (\<lambda>x. map_assign (info_sensorHandle x) x) xs m)
     \<and> sensor_map.filed info_sensorHandle (fold (\<lambda>x. map_assign (info_sensorHandle x) x) xs m)"
  by (induction xs arbitrary: m) (simp_all add: sorted_assign sensor_map.filed_assign)

subsection \<open>Disconnecting\<close>

lemma disconnect_loop_spec:
  assumes "map_sorted m" and "disconnect_loop K idx hs m = (gone, m')"
  shows "map_sorted m' \<and> distinct gone
       \<and> set gone = {setSubHalIndex h idx |h. h \<in> set hs \<and> subHalIndexIsClear K h
            \<and> map_find m (setSubHalIndex h idx) \<noteq> None}
       \<and> (\<forall>k. map_find m' k = (if k \<in> set gone then None else map_find m k))"
  using assms
proof (induction hs arbitrary: m gone)
  case (Cons h hs)
  let ?k = "setSubHalIndex h idx"
  show ?case
  proof (cases "subHalIndexIsClear K h \<and> map_find m ?k \<noteq> None")
    case False
    with Cons.prems have "disconnect_loop K idx hs m = (gone, m')"
      by (auto simp: Let_def split: if_splits)
    from Cons.IH [OF Cons.prems(1) this] False show ?thesis by auto
  next
    case True
    obtain gone' m'' where rest: "disconnect_loop K idx hs (map_erase ?k m) = (gone', m'')"
      by fastforce
    with True Cons.prems(2) have gone: "gone = ?k # gone'" and "m'' = m'"
      by (simp_all add: Let_def)
    with rest have rest: "disconnect_loop K idx hs (map_erase ?k m) = (gone', m')" by simp
    have erased: "map_find (map_erase ?k m) j = (if j = ?k then None else map_find m j)" for j
      using Cons.prems(1) by (rule find_erase)
    from Cons.IH [OF sorted_erase [OF Cons.prems(1)] rest] True show ?thesis
      unfolding gone erased by auto
  qed
qed auto

lemma disconnect_loop_filed:
  assumes "map_sorted m" and "sensor_map.filed info_sensorHandle m"
  shows "sensor_map.filed info_sensorHandle (snd (disconnect_loop K idx hs m))"
  using disconnect_loop_spec [OF assms(1), of K idx hs] assms(2)
  by (cases "disconnect_loop K idx hs m") (auto simp: sensor_map.filed_def)

subsection \<open>Properties\<close>

definition dynamic_inv :: "('a, 'r) hal_proxy \<Rightarrow> bool" where
  "dynamic_inv s \<longleftrightarrow>
     map_sorted (mDynamicSensors s) \<and> sensor_map.filed info_sensorHandle (mDynamicSensors s)"

text \<open>
  Connecting and disconnecting keep the map of dynamic sensors in order, with every
  sensor under its own handle, and the framework is told about each call exactly once.
\<close>

lemma dynamic_sensors_invariant:
  assumes "dynamic_inv s"
  shows "dynamic_inv (onDynamicSensorsConnected K xs i s)
       \<and> dynamic_inv (onDynamicSensorsDisconnected K hs i s)
       \<and> (\<exists>sensors. calls (onDynamicSensorsConnected K xs i s)
            = calls s @ [ON_DYNAMIC_SENSORS_CONNECTED sensors])
       \<and> (\<exists>gone. calls (onDynamicSensorsDisconnected K hs i s)
            = calls s @ [ON_DYNAMIC_SENSORS_DISCONNECTED gone])"
proof -
  have "dynamic_inv (onDynamicSensorsConnected K xs i s)"
    using assms
    by (simp add: dynamic_inv_def onDynamicSensorsConnected_def case_prod_unfold Let_def
        connect_loop_map emit_def fold_assign_inv)
  moreover have "dynamic_inv (onDynamicSensorsDisconnected K hs i s)"
    using assms disconnect_loop_filed [of "mDynamicSensors s" K "scast i" hs]
      disconnect_loop_spec [of "mDynamicSensors s" K "scast i" hs]
    by (cases "disconnect_loop K (scast i) hs (mDynamicSensors s)")
      (simp add: dynamic_inv_def onDynamicSensorsDisconnected_def emit_def)
  ultimately show ?thesis
    by (simp add: onDynamicSensorsConnected_def onDynamicSensorsDisconnected_def
        case_prod_unfold Let_def)
qed

text \<open>
  What is announced as connected is what the sub-HAL added with a clear first byte, in
  that order and under the packed handles; afterwards each of these handles is known with
  the last description announced for it, and all other handles are as before.
\<close>

lemma connected_sensors_known:
  "let sensors = map (with_index (scast i))
                   (filter (\<lambda>x. subHalIndexIsClear K (info_sensorHandle x)) xs)
   in calls (onDynamicSensorsConnected K xs i s)
        = calls s @ [ON_DYNAMIC_SENSORS_CONNECTED sensors]
      \<and> map_find (mDynamicSensors (onDynamicSensorsConnected K xs i s)) h
        = (case List.find (\<lambda>x. info_sensorHandle x = h) (rev sensors) of
             Some x \<Rightarrow> Some x | None \<Rightarrow> map_find (mDynamicSensors s) h)"
  by (simp add: onDynamicSensorsConnected_def case_prod_unfold Let_def connect_loop_map
      connect_loop_announced fold_assign_find emit_def)

text \<open>
  A disconnection announces each handle at most once, and exactly those handles of the
  request that were connected; afterwards exactly they are unknown.
\<close>

lemma disconnected_sensors_exact:
  assumes "dynamic_inv s" and "t = onDynamicSensorsDisconnected K hs i s"
  shows "\<exists>gone. calls t = calls s @ [ON_DYNAMIC_SENSORS_DISCONNECTED gone] \<and> distinct gone
       \<and> set gone = {setSubHalIndex h (scast i) |h. h \<in> set hs \<and> subHalIndexIsClear K h
            \<and> map_find (mDynamicSensors s) (setSubHalIndex h (scast i)) \<noteq> None}
       \<and> (\<forall>k. map_find (mDynamicSensors t) k
            = (if k \<in> set gone then None else map_find (mDynamicSensors s) k))"
proof -
  obtain gone m' where loop: "disconnect_loop K (scast i) hs (mDynamicSensors s) = (gone, m')"
    by fastforce
  have "map_sorted (mDynamicSensors s)" using assms(1) by (simp add: dynamic_inv_def)
  from disconnect_loop_spec [OF this loop] show ?thesis
    by (intro exI [of _ gone])
      (simp add: assms(2) onDynamicSensorsDisconnected_def loop emit_def)
qed

text \<open>
  C29: disconnecting undoes connecting.  If a sub-HAL connects sensors none of which was
  connected, and then disconnects their handles, the proxy knows the same dynamic sensors
  as before.
\<close>

theorem connect_disconnect_roundtrip:
  assumes "dynamic_inv s"
    and "\<forall>x \<in> set xs. subHalIndexIsClear K (info_sensorHandle x)"
    and "\<forall>x \<in> set xs. map_find (mDynamicSensors s) (setSubHalIndex (info_sensorHandle x) (scast i)) = None"
  shows "map_find (mDynamicSensors (onDynamicSensorsDisconnected K (map info_sensorHandle xs) i
            (onDynamicSensorsConnected K xs i s))) h
       = map_find (mDynamicSensors s) h"
proof -
  let ?t = "onDynamicSensorsConnected K xs i s"
  let ?idx = "scast i :: size_t"
  have clear: "filter (\<lambda>x. subHalIndexIsClear K (info_sensorHandle x)) xs = xs"
    using assms(2) by simp
  have known: "map_find (mDynamicSensors ?t) k
      = (case List.find (\<lambda>x. info_sensorHandle x = k) (rev (map (with_index ?idx) xs)) of
           Some x \<Rightarrow> Some x | None \<Rightarrow> map_find (mDynamicSensors s) k)" for k
    by (simp add: onDynamicSensorsConnected_def case_prod_unfold connect_loop_map
        connect_loop_announced fold_assign_find emit_def clear)
  have new: "k \<in> (\<lambda>x. setSubHalIndex (info_sensorHandle x) ?idx) ` set xs
      \<longleftrightarrow> List.find (\<lambda>x. info_sensorHandle x = k) (rev (map (with_index ?idx) xs)) \<noteq> None" for k
    by (auto simp: find_None_iff with_index_def image_iff)
  obtain gone m' where loop:
    "disconnect_loop K ?idx (map info_sensorHandle xs) (mDynamicSensors ?t) = (gone, m')"
    by fastforce
  have "map_sorted (mDynamicSensors ?t)"
    using assms(1)
    by (simp add: dynamic_inv_def onDynamicSensorsConnected_def case_prod_unfold Let_def
        connect_loop_map emit_def fold_assign_inv)
  note spec = disconnect_loop_spec [OF this loop]
  have gone: "set gone = (\<lambda>x. setSubHalIndex (info_sensorHandle x) ?idx) ` set xs"
  proof -
    have "map_find (mDynamicSensors ?t) k \<noteq> None"
      if "k \<in> (\<lambda>x. setSubHalIndex (info_sensorHandle x) ?idx) ` set xs" for k
      using that unfolding new known by (auto split: option.splits)
    then show ?thesis using spec assms(2) by auto
  qed
  have "map_find (mDynamicSensors (onDynamicSensorsDisconnected K (map info_sensorHandle xs) i ?t)) h
      = (if h \<in> set gone then None else map_find (mDynamicSensors ?t) h)"
    using spec by (simp add: onDynamicSensorsDisconnected_def loop emit_def)
  also have "\<dots> = map_find (mDynamicSensors s) h"
    using gone new [of h] known [of h] assms(3) by (auto split: option.splits)
  finally show ?thesis .
qed

theorem connect_disconnect_roundtrip_witness:
  "map_find (mDynamicSensors (onDynamicSensorsDisconnected example_consts
      (map info_sensorHandle [example_sensor 3 0]) 1
      (onDynamicSensorsConnected example_consts [example_sensor 3 0] 1 (example_proxy [])))) 0x1000003
     = map_find (mDynamicSensors (example_proxy [])) 0x1000003"
  by (rule connect_disconnect_roundtrip)
    (simp_all add: dynamic_inv_def example_proxy_def example_sensor_def sensor_map.filed_empty)

end
