(* ===== verification/Debug_Dump.thy ===== *)
theory Debug_Dump
  imports Sensor_Registry "HOL-Library.Signed_Division"
begin

text \<open>
  \<open>HalProxy::debug\<close>: the text it writes to the file descriptor it is given, in between what
  the sub-HALs write there themselves.  The names and the dumps of the sub-HALs, and the
  clock, are inputs.
\<close>

subsection \<open>Numbers as text\<close>

fun decimal :: "nat \<Rightarrow> string" where
  "decimal n = (if n < 10 then [char_of (48 + n)] else decimal (n div 10) @ [char_of (48 + n mod 10)])"

declare decimal.simps [simp del]

definition signed_decimal :: "int \<Rightarrow> string" where
  "signed_decimal k = (if k < 0 then ''-'' @ decimal (nat (- k)) else decimal (nat k))"

text \<open>The value of a text of digits.\<close>

definition digits_value :: "string \<Rightarrow> nat" where
  "digits_value cs = foldl (\<lambda>v c. 10 * v + (of_char c - 48)) 0 cs"

lemma decimal_value: "digits_value (decimal n) = n"
proof (induction n rule: decimal.induct)
  case (1 n)
  have digit: "of_char (char_of (48 + d) :: char) = (48 + d :: nat)" if "d < 10" for d
    using that by (simp add: of_char_of)
  show ?case
  proof (cases "n < 10")
    case True
    then show ?thesis by (simp add: decimal.simps [of n] digits_value_def digit)
  next
    case False
    have "digits_value (decimal n) = 10 * digits_value (decimal (n div 10)) + n mod 10"
      using False by (simp add: decimal.simps [of n] digits_value_def digit)
    then show ?thesis using 1 False by simp
  qed
qed

subsection \<open>The dump\<close>

definition msFromNs :: "int \<Rightarrow> int" where
  "msFromNs nanos = nanos sdiv 1000000"

definition endl :: string where
  "endl = [CHR 0x0A]"

definition size_text :: "size_t \<Rightarrow> string" where
  "size_text n = decimal (unat n)"

text \<open>What is streamed before the loop over the sub-HALs.\<close>

definition debug_values :: "int \<Rightarrow> ('a, 'r) hal_proxy \<Rightarrow> string" where
  "debug_values now s =
     ''===HalProxy==='' @ endl
     @ ''Internal values:'' @ endl
     @ ''  Threads are running: '' @ (if mThreadsRun s then ''true'' else ''false'') @ endl
     @ ''  Wakelock timeout start time: '' @ signed_decimal (msFromNs (now - mWakelockTimeoutStartTime s))
     @ '' ms ago'' @ endl
     @ ''  Wakelock timeout reset time: '' @ signed_decimal (msFromNs (now - mWakelockTimeoutResetTime s))
     @ '' ms ago'' @ endl
     @ ''  Wakelock ref count: '' @ size_text (mWakelockRefCount s) @ endl
     @ ''  # of events on pending write writes queue: '' @ size_text (mSizePendingWriteEventsQueue s) @ endl
     @ '' Most events seen on pending write events queue: ''
     @ size_text (mMostEventsObservedPendingWriteEventsQueue s) @ endl
     @ (case mPendingWriteEventsQueue s of
          (es, _) # _ \<Rightarrow>
            ''  Size of events list on front of pending writes queue: '' @ decimal (length es) @ endl
        | [] \<Rightarrow> [])
     @ ''  # of non-dynamic sensors across all subhals: '' @ decimal (length (mSensors s)) @ endl
     @ ''  # of dynamic sensors across all subhals: '' @ decimal (length (mDynamicSensors s)) @ endl
     @ ''SubHals ('' @ decimal (length (mSubHalList s)) @ ''):'' @ endl"

text \<open>
  A sub-HAL as \<open>debug\<close> uses it: its name, and what its dump writes to which descriptor for a
  handle and arguments, with the state it is in afterwards.
\<close>

record 'r sub_hal_debug =
  sub_getName :: "'r sub_hal \<Rightarrow> string"
  sub_debug :: "int list \<Rightarrow> string list \<Rightarrow> 'r sub_hal \<Rightarrow> (int \<times> string) list \<times> 'r sub_hal"

text \<open>The loop, with the text that is in the stream, and the last write after it.\<close>

fun debug_loop :: "'r sub_hal_debug \<Rightarrow> int \<Rightarrow> int list \<Rightarrow> string list \<Rightarrow> string
    \<Rightarrow> 'r sub_hal list \<Rightarrow> (int \<times> string) list \<times> 'r sub_hal list" where
  "debug_loop D writeFd fd args stream [] = ([(writeFd, stream)], [])"
| "debug_loop D writeFd fd args stream (subHal # hals) =
     (let stream = stream @ ''  Name: '' @ sub_getName D subHal @ endl @ ''  Debug dump: '' @ endl;
          (dump, subHal) = sub_debug D fd args subHal;
          (writes, hals) = debug_loop D writeFd fd args endl hals
      in ((writeFd, stream) # dump @ writes, subHal # hals))"

text \<open>A handle is a list of descriptors, or null.\<close>

definition debug :: "'r sub_hal_debug \<Rightarrow> int \<Rightarrow> int list option \<Rightarrow> string list
    \<Rightarrow> ('a, 'r) hal_proxy \<Rightarrow> (int \<times> string) list \<times> ('a, 'r) hal_proxy" where
  "debug D now fd args s =
     (case fd of
        None \<Rightarrow> ([], s)
      | Some [] \<Rightarrow> ([], s)
      | Some (writeFd # fds) \<Rightarrow>
          let (writes, hals) =
                debug_loop D writeFd (writeFd # fds) args (debug_values now s) (mSubHalList s)
          in (writes, s\<lparr>mSubHalList := hals\<rparr>))"

subsection \<open>What it writes\<close>

definition debug_section :: "'r sub_hal_debug \<Rightarrow> int \<Rightarrow> int list \<Rightarrow> string list \<Rightarrow> 'r sub_hal
    \<Rightarrow> (int \<times> string) list" where
  "debug_section D writeFd fd args h =
     (writeFd, ''  Name: '' @ sub_getName D h @ endl @ ''  Debug dump: '' @ endl)
     # fst (sub_debug D fd args h) @ [(writeFd, endl)]"

text \<open>What arrives at a descriptor: the texts that were written to it, one after the other.\<close>

definition text_at :: "int \<Rightarrow> (int \<times> string) list \<Rightarrow> string" where
  "text_at d ws = concat (map snd (filter (\<lambda>(d', _). d' = d) ws))"

lemma text_at_simps [simp]:
  "text_at d [] = []"
  "text_at d (ws @ ws') = text_at d ws @ text_at d ws'"
  "text_at d ((d', t) # ws) = (if d' = d then t else []) @ text_at d ws"
  by (simp_all add: text_at_def)

lemma debug_loop_text:
  "text_at d (fst (debug_loop D writeFd fd args stream hals))
     = text_at d [(writeFd, stream)] @ text_at d (concat (map (debug_section D writeFd fd args) hals))"
  by (induction hals arbitrary: stream) (simp_all add: debug_section_def case_prod_unfold Let_def)

lemma debug_loop_hals:
  "snd (debug_loop D writeFd fd args stream hals) = map (\<lambda>h. snd (sub_debug D fd args h)) hals"
  by (induction hals arbitrary: stream) (simp_all add: case_prod_unfold Let_def)

lemma debug_frame: "\<exists>hals. snd (debug D now fd args s) = s\<lparr>mSubHalList := hals\<rparr>
    \<and> length hals = length (mSubHalList s)"
proof (cases "fd = None \<or> fd = Some []")
  case True
  then have "snd (debug D now fd args s) = s" by (auto simp: debug_def)
  then show ?thesis by (intro exI [of _ "mSubHalList s"]) simp
next
  case False
  then obtain w fds where "fd = Some (w # fds)" by (metis list.exhaust option.exhaust)
  then have "snd (debug D now fd args s)
      = s\<lparr>mSubHalList := map (\<lambda>h. snd (sub_debug D (w # fds) args h)) (mSubHalList s)\<rparr>"
    by (simp add: debug_def debug_loop_hals case_prod_unfold)
  then show ?thesis by (metis length_map)
qed

text \<open>
  C40: the dump is complete and in order.  Without a descriptor nothing is written or called.
  With one, what arrives there is the proxy's own values and then for each sub-HAL, in the
  order of the list, its name, its own dump and an empty line; every sub-HAL is asked once,
  and nothing else of the proxy changes.  The numbers can be read back from their digits.
\<close>

theorem debug_dump_in_order:
  "(fd = None \<or> fd = Some [] \<longrightarrow> debug D now fd args s = ([], s))
   \<and> text_at w (fst (debug D now (Some (w # fds)) args s))
       = debug_values now s
         @ text_at w (concat (map (debug_section D w (w # fds) args) (mSubHalList s)))
   \<and> snd (debug D now (Some (w # fds)) args s)
       = s\<lparr>mSubHalList := map (\<lambda>h. snd (sub_debug D (w # fds) args h)) (mSubHalList s)\<rparr>
   \<and> digits_value (size_text (mWakelockRefCount s)) = unat (mWakelockRefCount s)"
  by (auto simp: debug_def case_prod_unfold Let_def debug_loop_text debug_loop_hals size_text_def
      decimal_value)

definition example_debug :: "sensor_info list sub_hal_debug" where
  "example_debug = \<lparr>sub_getName = (\<lambda>h. ''sub''), sub_debug = (\<lambda>fd args h. ([(hd fd, ''ok'')], h))\<rparr>"

theorem debug_dump_in_order_witness:
  "debug example_debug 5000000 (Some []) [] (example_proxy [[]]) = ([], example_proxy [[]])
   \<and> text_at 3 (concat (map (debug_section example_debug 3 [3] []) (mSubHalList (example_proxy [[]]))))
      = ''  Name: sub'' @ endl @ ''  Debug dump: '' @ endl @ ''ok'' @ endl"
  using debug_dump_in_order [of "Some []" example_debug 5000000 "[]" "example_proxy [[]]" 3 "[]"]
  by (simp add: debug_section_def example_debug_def example_proxy_def)

end
