(* ===== verification/Hal_Interleaving.thy ===== *)
theory Hal_Interleaving
  imports Fifo_Spec Hal_Lifecycle Light_Correction Dynamic_Sensors Debug_Dump
begin

text \<open>
  The running proxy as a transition system, and its refinement of the line of events of
  \<open>Fifo_Spec\<close>.  Sub-HALs post events and hold scoped wake locks,
  the framework calls the proxy, and the two threads go through their loops, all at the same
  time; a step is what one of them does under a mutex, and the steps come in any order.  The
  pending writes thread gives \<open>mEventQueueWriteMutex\<close> up while it writes to the event queue,
  so others can post before and after the write, and find the events that were written still
  among the pending ones.
\<close>

subsection \<open>Steps\<close>

text \<open>
  The label of a step is what it does to the events: it offers some, or ends a write of the
  pending writes thread, or is an initialisation, or none of these.  An initialisation
  can be undisturbed (\<open>restart\<close>), or go on step by step after it has started the threads, so
  that events are posted and written while the sub-HALs are initialised one after the other.
\<close>

inductive hal_step :: "hal_consts \<Rightarrow> (event \<Rightarrow> 'a \<Rightarrow> event \<times> 'a)
    \<Rightarrow> ('a, 'r) hal_proxy \<Rightarrow> event label \<Rightarrow> ('a, 'r) hal_proxy \<Rightarrow> bool"
  for K process where
  post: "vector_ok es \<Longrightarrow>
     hal_step K process s (POST (posted_events process es s))
       (postEventsToMessageQueue K process env es w locked s)"
| take: "mPendingWritesThread s = Some PW_WAITING \<Longrightarrow> pending_wait_ready s \<Longrightarrow> mEventQueue s = Some q \<Longrightarrow>
     hal_step K process s TAU (s\<lparr>mPendingWritesThread := Some (handlePendingWrites_take q s)\<rparr>)"
| written: "mPendingWritesThread s = Some (PW_WRITING q n w) \<Longrightarrow>
     hal_step K process s (WRITE ok)
       ((handlePendingWrites_written K q n w ok s)\<lparr>mPendingWritesThread := Some (PW_ERASING q n)\<rparr>)"
| erase: "mPendingWritesThread s = Some (PW_ERASING q n) \<Longrightarrow>
     hal_step K process s TAU
       ((handlePendingWrites_erase q n s)\<lparr>mPendingWritesThread := Some PW_WAITING\<rparr>)"
| check: "mWakelockThread s = Some WL_WAITING \<Longrightarrow> wakelock_wait_ready s \<Longrightarrow>
     handleWakelocks_check K now now' s = (t, pc) \<Longrightarrow>
     hal_step K process s TAU (t\<lparr>mWakelockThread := Some pc\<rparr>)"
| read: "mWakelockThread s = Some (WL_READING timeLeft) \<Longrightarrow>
     hal_step K process s TAU ((handleWakelocks_read r s)\<lparr>mWakelockThread := Some WL_WAITING\<rparr>)"
| lock: "hal_step K process s TAU (snd (incrementRefCountAndMaybeAcquireWakelock d now s))"
| unlock: "hal_step K process s TAU (decrementRefCountAndMaybeReleaseWakelock d timeoutStart s)"
| connected: "hal_step K process s TAU (onDynamicSensorsConnected K xs i s)"
| disconnected: "hal_step K process s TAU (onDynamicSensorsDisconnected K hs i s)"
| "call": "hal_step K process s TAU (snd (proxy_call K ops conv c s))"
| mode: "hal_step K process s TAU (snd (setOperationMode ops m s))"
| channel: "hal_step K process s TAU (snd (registerDirectChannel ops mem s))"
| no_channel: "hal_step K process s TAU (snd (unregisterDirectChannel ops ch s))"
| report: "hal_step K process s TAU (snd (configDirectReport K ops h ch rate s))"
| dump: "hal_step K process s TAU (snd (debug D now fd args s))"
| stop: "hal_step K process s TAU (s\<lparr>mThreadsRun := False\<rparr>)"
| restart: "hal_step K process s RESTART (snd (initializeCommon K ops start_env q s))"
| start_threads: "hal_step K process s RESTART (restarted start_env q (quiet K ops start_env s))"
| init_sub_hal: "i < length (mSubHalList s) \<Longrightarrow>
     hal_step K process s TAU (snd (call_sub_hal i (sub_initialize (ops :: 'r sub_hal_ops) i) s))"
| init_mode: "hal_step K process s TAU (s\<lparr>mCurrentOperationMode := NORMAL\<rparr>)"

inductive_cases hal_stepE: "hal_step K process s l t"

abbreviation hal_run :: "hal_consts \<Rightarrow> (event \<Rightarrow> 'a \<Rightarrow> event \<times> 'a)
    \<Rightarrow> ('a, 'r) hal_proxy \<Rightarrow> event label list \<Rightarrow> ('a, 'r) hal_proxy \<Rightarrow> bool" where
  "hal_run K process \<equiv> run (hal_step K process)"

subsection \<open>What a step can change\<close>

text \<open>The parts of the state that the pending writes thread and the framework see.\<close>

definition queue_view :: "('a, 'r) hal_proxy \<Rightarrow> (event list \<times> size_t) list \<times> size_t \<times> size_t
    \<times> event list \<times> pending_pc option" where
  "queue_view s = (mPendingWriteEventsQueue s, mSizePendingWriteEventsQueue s,
     mMostEventsObservedPendingWriteEventsQueue s, written (calls s), mPendingWritesThread s)"

lemma lock_steps_view [simp]:
  "queue_view (snd (incrementRefCountAndMaybeAcquireWakelock d now s)) = queue_view s"
  "queue_view (decrementRefCountAndMaybeReleaseWakelock d timeoutStart s) = queue_view s"
  "queue_view (resetSharedWakelock now s) = queue_view s"
  "queue_view (handleWakelocks_read r s) = queue_view s"
  by (simp_all add: queue_view_def wakelock_defs handleWakelocks_read_def split: option.split)

lemma check_view [simp]: "queue_view (fst (handleWakelocks_check K now now' s)) = queue_view s"
  by (simp add: handleWakelocks_check_def split: option.split)

lemma sub_hal_steps_view [simp]:
  "queue_view (onDynamicSensorsConnected K xs i s) = queue_view s"
  "queue_view (onDynamicSensorsDisconnected K hs i s) = queue_view s"
  "queue_view (snd (call_sub_hal j f s)) = queue_view s"
  "queue_view (snd (setOperationMode ops m s)) = queue_view s"
  by (simp_all add: queue_view_def onDynamicSensorsConnected_def onDynamicSensorsDisconnected_def
      call_sub_hal_def setOperationMode_def emit_def Let_def case_prod_unfold)

lemma direct_channel_view [simp]:
  "queue_view (snd (registerDirectChannel ops mem s)) = queue_view s"
  "queue_view (snd (unregisterDirectChannel ops ch s)) = queue_view s"
  "queue_view (snd (configDirectReport K ops h ch rate s)) = queue_view s"
  by (simp_all add: registerDirectChannel_def unregisterDirectChannel_def configDirectReport_def
      Let_def split: option.split)

lemma debug_queue_view [simp]: "queue_view (snd (debug D now fd args s)) = queue_view s"
  using debug_frame [of D now fd args s] by (auto simp: queue_view_def)

lemma proxy_call_view [simp]: "queue_view (snd (proxy_call K ops conv c s)) = queue_view s"
  by (simp add: proxy_call_eq)

lemma queue_view_updates [simp]:
  "queue_view (s\<lparr>mWakelockThread := w\<rparr>) = queue_view s"
  "queue_view (s\<lparr>mThreadsRun := b\<rparr>) = queue_view s"
  "queue_view (s\<lparr>mSubHalList := hals\<rparr>) = queue_view s"
  "queue_view (s\<lparr>mCurrentOperationMode := m\<rparr>) = queue_view s"
  by (simp_all add: queue_view_def)

lemma initialized_view:
  "queue_view (snd (initializeCommon K ops env q s)) = queue_view (restarted env q (quiet K ops env s))"
  using initialized_state [of K ops env q s] by auto

text \<open>So only five of the steps concern the events.\<close>

lemma hal_step_queue:
  assumes "hal_step K process s l t"
  obtains (post) xs env w locked where "vector_ok xs" "l = POST (posted_events process xs s)"
      "t = postEventsToMessageQueue K process env xs w locked s"
  | (take) q where "l = TAU" "mPendingWritesThread s = Some PW_WAITING" "pending_wait_ready s"
      "t = s\<lparr>mPendingWritesThread := Some (handlePendingWrites_take q s)\<rparr>"
  | (written) q n w ok where "l = WRITE ok" "mPendingWritesThread s = Some (PW_WRITING q n w)"
      "t = (handlePendingWrites_written K q n w ok s)\<lparr>mPendingWritesThread := Some (PW_ERASING q n)\<rparr>"
  | (erase) q n where "l = TAU" "mPendingWritesThread s = Some (PW_ERASING q n)"
      "t = (handlePendingWrites_erase q n s)\<lparr>mPendingWritesThread := Some PW_WAITING\<rparr>"
  | (restart) ops env q where "l = RESTART" "queue_view t = queue_view (restarted env q (quiet K ops env s))"
  | (other) "l = TAU" "queue_view t = queue_view s"
  using assms
proof (cases rule: hal_step.cases)
  case (check now now' u pc)
  then show thesis using check_view [of K now now' s] by (intro other) simp_all
next
  case (restart ops env q)
  then show thesis using initialized_view by (intro that(5)) simp_all
next
  case (start_threads env q ops)
  then show thesis by (intro that(5)) simp_all
next
  case post
  then show thesis by (intro that(1))
next
  case take
  then show thesis by (intro that(2))
next
  case written
  then show thesis by (intro that(3))
next
  case erase
  then show thesis by (intro that(4))
next
  case read
  then show thesis by (intro other) simp_all
next
  case lock
  then show thesis by (intro other) simp_all
next
  case unlock
  then show thesis by (intro other) simp_all
next
  case connected
  then show thesis by (intro other) simp_all
next
  case disconnected
  then show thesis by (intro other) simp_all
next
  case "call"
  then show thesis by (intro other) simp_all
next
  case mode
  then show thesis by (intro other) simp_all
next
  case channel
  then show thesis by (intro other) simp_all
next
  case no_channel
  then show thesis by (intro other) simp_all
next
  case report
  then show thesis by (intro other) simp_all
next
  case dump
  then show thesis by (intro other) simp_all
next
  case stop
  then show thesis by (intro other) simp_all
next
  case init_sub_hal
  then show thesis by (intro other) simp_all
next
  case init_mode
  then show thesis by (intro other) simp_all
qed

subsection \<open>Invariants\<close>

text \<open>
  From the moment at which the pending writes thread has taken a list until it removes it,
  this list is the front of the queue, and the number to write is still right.
\<close>

definition thread_inv :: "('a, 'r) hal_proxy \<Rightarrow> bool" where
  "thread_inv s \<longleftrightarrow>
     (case mPendingWritesThread s of
        Some (PW_WRITING q n w) \<Rightarrow>
          (case mPendingWriteEventsQueue s of
             (es, recorded) # _ \<Rightarrow> n = min (length es) q \<and> recorded = w
           | [] \<Rightarrow> False)
      | Some (PW_ERASING q n) \<Rightarrow>
          (case mPendingWriteEventsQueue s of
             (es, _) # _ \<Rightarrow> n = min (length es) q
           | [] \<Rightarrow> False)
      | _ \<Rightarrow> True)"

text \<open>The events that were dealt with but are still in the queue, and those that wait.\<close>

definition in_flight :: "('a, 'r) hal_proxy \<Rightarrow> nat" where
  "in_flight s = (case mPendingWritesThread s of Some (PW_ERASING q n) \<Rightarrow> n | _ \<Rightarrow> 0)"

definition waiting_events :: "('a, 'r) hal_proxy \<Rightarrow> event list" where
  "waiting_events s = drop (in_flight s) (backlog s)"

lemma view_invariants:
  assumes "queue_view t = queue_view s"
  shows "delivery_inv K t = delivery_inv K s" and "thread_inv t = thread_inv s"
    and "written (calls t) = written (calls s)" and "backlog t = backlog s"
    and "in_flight t = in_flight s" and "waiting_events t = waiting_events s"
proof -
  have e: "mPendingWriteEventsQueue t = mPendingWriteEventsQueue s"
    "mSizePendingWriteEventsQueue t = mSizePendingWriteEventsQueue s"
    "mMostEventsObservedPendingWriteEventsQueue t = mMostEventsObservedPendingWriteEventsQueue s"
    "written (calls t) = written (calls s)" "mPendingWritesThread t = mPendingWritesThread s"
    using assms by (simp_all add: queue_view_def)
  show "delivery_inv K t = delivery_inv K s" "thread_inv t = thread_inv s"
    "written (calls t) = written (calls s)" "backlog t = backlog s" "in_flight t = in_flight s"
    "waiting_events t = waiting_events s"
    unfolding thread_inv_def delivery_inv_def waiting_events_def backlog_def in_flight_def e
    by simp_all
qed

lemma delivery_inv_thread [simp]:
  "delivery_inv K (s\<lparr>mPendingWritesThread := pc\<rparr>) = delivery_inv K s"
  by (rule delivery_inv_cong) simp_all

lemma backlog_thread [simp]: "backlog (s\<lparr>mPendingWritesThread := pc\<rparr>) = backlog s"
  by (simp add: backlog_def)

lemma thread_inv_waiting: "mPendingWritesThread s = Some PW_WAITING \<Longrightarrow> thread_inv s"
  by (simp add: thread_inv_def)

lemma thread_inv_take:
  "thread_inv (s\<lparr>mPendingWritesThread := Some (handlePendingWrites_take q s)\<rparr>)"
  by (simp add: thread_inv_def handlePendingWrites_take_def split: list.split)

lemma post_thread [simp]:
  fixes s :: "('a, 'r) hal_proxy"
  shows "mPendingWritesThread (postEventsToMessageQueue K process env es w locked s) = mPendingWritesThread s"
  by (simp add: postEventsToMessageQueue_def keep_pending_def write_now_def wakelock_defs
      case_prod_unfold)

lemma post_appends:
  fixes s :: "('a, 'r) hal_proxy"
  shows "\<exists>xs. mPendingWriteEventsQueue (postEventsToMessageQueue K process env es w locked s)
          = mPendingWriteEventsQueue s @ xs"
  by (simp add: post_unfold(1) keep_pending_def Let_def)

lemma thread_inv_post:
  assumes "thread_inv s"
  shows "thread_inv (postEventsToMessageQueue K process env es w locked s)"
proof -
  obtain xs where "mPendingWriteEventsQueue (postEventsToMessageQueue K process env es w locked s)
      = mPendingWriteEventsQueue s @ xs"
    using post_appends by blast
  with assms show ?thesis
    by (auto simp: thread_inv_def split: option.splits pending_pc.splits list.splits)
qed

lemma writing_front:
  assumes "thread_inv s" and "mPendingWritesThread s = Some (PW_WRITING q n w)"
  obtains es rest where "mPendingWriteEventsQueue s = (es, w) # rest" and "n = min (length es) q"
  using assms by (auto simp: thread_inv_def split: list.splits)

lemma erasing_front:
  assumes "thread_inv s" and "mPendingWritesThread s = Some (PW_ERASING q n)"
  obtains es r rest where "mPendingWriteEventsQueue s = (es, r) # rest" and "n = min (length es) q"
  using assms by (auto simp: thread_inv_def split: list.splits)

lemma thread_inv_written:
  assumes "thread_inv s" and "mPendingWritesThread s = Some (PW_WRITING q n w)"
  shows "thread_inv ((handlePendingWrites_written K q n w ok s)\<lparr>mPendingWritesThread := Some (PW_ERASING q n)\<rparr>)"
  using assms by (auto simp: thread_inv_def written_front split: list.splits)

lemma in_flight_idle [simp]:
  "(\<And>q n. mPendingWritesThread s \<noteq> Some (PW_ERASING q n)) \<Longrightarrow> in_flight s = 0"
  by (simp add: in_flight_def split: option.split pending_pc.split)

lemma in_flight_erasing [simp]:
  "mPendingWritesThread s = Some (PW_ERASING q n) \<Longrightarrow> in_flight s = n"
  by (simp add: in_flight_def)

lemma in_flight_bound:
  assumes "thread_inv s"
  shows "in_flight s \<le> length (backlog s)"
proof (cases "\<exists>q n. mPendingWritesThread s = Some (PW_ERASING q n)")
  case True
  then obtain q n where pc: "mPendingWritesThread s = Some (PW_ERASING q n)" by blast
  with assms show ?thesis by (auto simp: backlog_def elim: erasing_front)
qed simp

text \<open>
  An initialisation lets the pending writes thread end the write it may be in, and drops the
  events that are still pending.
\<close>

lemma front_backlog:
  assumes "mPendingWriteEventsQueue s = (es, r) # rest" and "n \<le> length es"
  shows "take n es = take n (backlog s)"
  using assms by (simp add: backlog_def)

lemma stop_written:
  assumes "thread_inv s"
  shows "\<exists>n. written (calls (stopThreads K env s)) = written (calls s) @ take n (waiting_events s)"
proof -
  let ?s = "wake_threads (availableToRead env) (s\<lparr>mThreadsRun := False\<rparr>)"
  let ?t = "join_pending_writes K (last_write_succeeds env) ?s"
  have pend: "mPendingWriteEventsQueue ?s = mPendingWriteEventsQueue s"
    and thread: "mPendingWritesThread ?s = mPendingWritesThread s"
    and w: "written (calls ?s) = written (calls s)"
    by (simp_all add: wake_threads_def emit_def Let_def)
  have joined: "written (calls (join_wakelocks r now u)) = written (calls u)" for r now and u :: "('a, 'b) hal_proxy"
    by (simp add: join_wakelocks_def finish_wakelocks_def split: option.split wakelock_pc.split)
  have "\<exists>n. written (calls ?t) = written (calls s) @ take n (waiting_events s)"
  proof (cases "\<exists>q n r. mPendingWritesThread s = Some (PW_WRITING q n r)")
    case True
    then obtain q n r where pc: "mPendingWritesThread s = Some (PW_WRITING q n r)" by blast
    obtain es rest where front: "mPendingWriteEventsQueue s = (es, r) # rest" and "n = min (length es) q"
      using writing_front [OF assms pc] .
    then have "take n es = take n (backlog s)" by (intro front_backlog) simp_all
    then have "take n es = take n (waiting_events s)" using pc by (simp add: waiting_events_def)
    moreover have "written (calls ?t)
        = written (calls s) @ (if last_write_succeeds env then take n es else [])"
      using finish_front(5) [of ?s es r rest] front pc
      by (simp add: join_pending_writes_def finish_pending_writes_def thread pend w)
    moreover have "[] = take 0 (waiting_events s)" by simp
    ultimately show ?thesis by metis
  next
    case False
    then have "written (calls ?t) = written (calls s)"
      by (auto simp: join_pending_writes_def finish_pending_writes_def thread w
          split: option.split pending_pc.split)
    then show ?thesis by (intro exI [of _ 0]) simp
  qed
  then show ?thesis by (simp add: stopThreads_def Let_def joined)
qed

lemma restarted_written:
  assumes "thread_inv s"
  shows "\<exists>n. written (calls (restarted env q (quiet K ops env s)))
           = written (calls s) @ take n (waiting_events s)"
proof -
  let ?v = "stopThreads K (stopping env) s"
  obtain hals where "quiet K ops env s = (resetSharedWakelock (start_now env) ?v)\<lparr>mSubHalList := hals\<rparr>"
    using quiet_frame by blast
  then have "written (calls (restarted env q (quiet K ops env s))) = written (calls ?v)"
    by (simp add: restarted_def)
  then show ?thesis using stop_written [OF assms] by simp
qed

text \<open>The state after an initialisation is a good start, and so is the one in which the threads begin.\<close>

lemma restarted_start:
  fixes s :: "('a, 'r) hal_proxy" and env q
  shows "delivery_inv K (restarted env q s)" and "thread_inv (restarted env q s)"
    and "backlog (restarted env q s) = []" and "in_flight (restarted env q s) = 0"
  by (simp_all add: restarted_def delivery_inv_def backlog_def thread_inv_def in_flight_def)

lemma restarted_lock:
  "lock_inv (restarted env q (quiet K ops env s)) = lock_inv s"
  using initialized_lock [of K ops env q s] initialized_state [of K ops env q s]
  by (auto simp: lock_inv_def)

lemma initialized_start:
  fixes s :: "('a, 'r) hal_proxy" and K ops env q
  defines "t \<equiv> snd (initializeCommon K ops env q s)"
  shows "delivery_inv K t" and "thread_inv t" and "backlog t = []" and "in_flight t = 0"
    and "lock_inv t = lock_inv s"
proof -
  note view = view_invariants [OF initialized_view [of K ops env q s]]
  show "delivery_inv K t" "thread_inv t" "backlog t = []" "in_flight t = 0"
    unfolding t_def view by (rule restarted_start)+
  show "lock_inv t = lock_inv s"
    unfolding t_def lock_inv_def initialized_lock ..
qed

definition queue_inv :: "hal_consts \<Rightarrow> ('a, 'r) hal_proxy \<Rightarrow> bool" where
  "queue_inv K s \<longleftrightarrow> limit_ok K \<and> delivery_inv K s \<and> thread_inv s"

lemma step_invariants:
  assumes "queue_inv K s" and "hal_step K process s l t"
  shows "queue_inv K t"
  using assms(2)
proof (cases rule: hal_step_queue)
  case (post xs env w locked)
  with assms(1) show ?thesis by (simp add: queue_inv_def post_inv thread_inv_post)
next
  case (take q)
  with assms(1) show ?thesis by (simp add: queue_inv_def thread_inv_take)
next
  case (written q n w ok)
  with assms(1) show ?thesis by (simp add: queue_inv_def thread_inv_written written_inv)
next
  case (erase q n)
  have inv: "delivery_inv K s" "thread_inv s"
    using assms(1) by (simp_all add: queue_inv_def)
  obtain xs r rest where front: "mPendingWriteEventsQueue s = (xs, r) # rest"
    and n: "n = min (length xs) q"
    using erasing_front inv(2) erase(2) by blast
  have "delivery_inv K (handlePendingWrites_erase q n s)"
    unfolding n by (rule erase_inv [OF front inv(1)])
  then show ?thesis
    using assms(1) unfolding erase(3) by (simp add: queue_inv_def thread_inv_waiting)
next
  case (restart ops env q)
  with assms(1) view_invariants [OF restart(2)] show ?thesis
    by (simp add: queue_inv_def restarted_start)
next
  case other
  with assms(1) view_invariants [OF other(2)] show ?thesis by (simp add: queue_inv_def)
qed

subsection \<open>Refinement of the line of events\<close>

text \<open>What the framework has got, the places taken by events dealt with, and what waits.\<close>

definition fifo_view :: "('a, 'r) hal_proxy \<Rightarrow> event fifo" where
  "fifo_view s = (written (calls s), in_flight s, waiting_events s)"

lemma written_simulates:
  fixes s :: "('a, 'r) hal_proxy"
  assumes "thread_inv s" and pc: "mPendingWritesThread s = Some (PW_WRITING q n w)"
  shows "fifo_step L (fifo_view s) (WRITE ok)
           (fifo_view ((handlePendingWrites_written K q n w ok s)\<lparr>mPendingWritesThread := Some (PW_ERASING q n)\<rparr>))"
proof -
  let ?t = "(handlePendingWrites_written K q n w ok s)\<lparr>mPendingWritesThread := Some (PW_ERASING q n)\<rparr>"
  obtain xs rest where front: "mPendingWriteEventsQueue s = (xs, w) # rest"
    and n: "n = min (length xs) q"
    using writing_front [OF assms] .
  have "take n xs = take n (backlog s)"
    using n by (intro front_backlog [OF front]) simp
  then have "written (calls ?t) = written (calls s) @ (if ok then take n (backlog s) else [])"
    by (simp add: written_front front)
  moreover have "backlog ?t = backlog s"
    by (simp add: backlog_def written_front)
  moreover have "n \<le> length (backlog s)"
    using n by (simp add: backlog_def front)
  ultimately show ?thesis
    using pc fifo_step.deliver [of n "backlog s" L "written (calls s)"]
      fifo_step.lose [of n "backlog s" L "written (calls s)"]
    by (cases ok) (simp_all add: fifo_view_def waiting_events_def)
qed

lemma erase_simulates:
  fixes s :: "('a, 'r) hal_proxy"
  assumes "thread_inv s" and pc: "mPendingWritesThread s = Some (PW_ERASING q n)"
  shows "fifo_step L (fifo_view s) TAU
           (fifo_view ((handlePendingWrites_erase q n s)\<lparr>mPendingWritesThread := Some PW_WAITING\<rparr>))"
proof -
  obtain xs r rest where front: "mPendingWriteEventsQueue s = (xs, r) # rest"
    and n: "n = min (length xs) q"
    using erasing_front [OF assms] .
  have "backlog (handlePendingWrites_erase q n s) = drop n (backlog s)"
    unfolding n by (rule erase_backlog [OF front])
  then show ?thesis
    using pc fifo_step.free [of L "written (calls s)" n "drop n (backlog s)"]
    by (simp add: fifo_view_def waiting_events_def)
qed

lemma post_simulates:
  fixes s :: "('a, 'r) hal_proxy"
  assumes "queue_inv K s" and "vector_ok es"
  shows "fifo_step (unat (kMaxSizePendingWriteEventsQueue K)) (fifo_view s)
           (POST (posted_events process es s))
           (fifo_view (postEventsToMessageQueue K process env es w locked s))"
proof -
  define n where "n = (if mPendingWriteEventsQueue s = [] \<and> write_succeeds env
            then min (length es) (availableToWrite env) else 0)"
  define ev where "ev = posted_events process es s"
  define L where "L = unat (kMaxSizePendingWriteEventsQueue K)"
  let ?t = "postEventsToMessageQueue K process env es w locked s"
  have inv: "limit_ok K" "delivery_inv K s" "thread_inv s"
    using assms(1) by (simp_all add: queue_inv_def)
  have k: "in_flight ?t = in_flight s" by (simp add: in_flight_def)
  have bound: "in_flight s \<le> length (backlog s)" by (rule in_flight_bound [OF inv(3)])
  have len: "length ev = length es" by (simp add: ev_def posted_events_def)
  have "n = 0 \<or> backlog s = []" and "n \<le> length es"
    by (simp_all add: n_def backlog_def)
  then have "n = 0 \<or> in_flight s = 0 \<and> waiting_events s = []"
    using bound by (auto simp: waiting_events_def)
  moreover have "waiting_events ?t
      = (if in_flight s + length (waiting_events s) + (length es - n) \<le> L
         then waiting_events s @ drop n ev else waiting_events s)"
    using post_functional [OF inv(1) assms(2) inv(2) n_def refl, of process w locked] bound
    by (simp add: waiting_events_def k ev_def L_def)
  moreover have "written (calls ?t) = written (calls s) @ take n ev"
    using post_functional [OF inv(1) assms(2) inv(2) n_def refl, of process w locked]
    by (simp add: ev_def)
  ultimately show ?thesis
    using fifo_step.offer [of n ev "in_flight s" "waiting_events s" "waiting_events ?t" L
        "written (calls s)"] \<open>n \<le> length es\<close>
    by (simp only: fifo_view_def k len flip: ev_def L_def)
qed

lemma step_simulates:
  assumes "queue_inv K s" and "hal_step K process s l t"
  shows "fifo_step (unat (kMaxSizePendingWriteEventsQueue K)) (fifo_view s) l (fifo_view t)"
  using assms(2)
proof (cases rule: hal_step_queue)
  case (post xs env w locked)
  with assms(1) show ?thesis by (simp add: post_simulates)
next
  case (take q)
  have "handlePendingWrites_take q s \<noteq> PW_ERASING q' n" for q' n
    by (simp add: handlePendingWrites_take_def split: list.split)
  with take show ?thesis by (simp add: fifo_view_def waiting_events_def fifo_step.idle)
next
  case (written q n w ok)
  with assms(1) show ?thesis by (simp add: queue_inv_def written_simulates)
next
  case (erase q n)
  with assms(1) show ?thesis by (simp add: queue_inv_def erase_simulates)
next
  case (restart ops env q)
  let ?r = "restarted env q (quiet K ops env s)"
  have "thread_inv s" using assms(1) by (simp add: queue_inv_def)
  then obtain n where "written (calls ?r) = written (calls s) @ take n (waiting_events s)"
    using restarted_written by blast
  moreover have "fifo_view t = fifo_view ?r"
    using view_invariants [OF restart(2)] by (simp add: fifo_view_def)
  moreover have "fifo_view ?r = (written (calls ?r), 0, [])"
    by (simp add: fifo_view_def waiting_events_def restarted_start)
  ultimately have "fifo_view t = (written (calls s) @ take n (waiting_events s), 0, [])"
    by simp
  then show ?thesis unfolding restart(1) by (simp add: fifo_view_def fifo_step.restart)
next
  case other
  with view_invariants [OF other(2)] show ?thesis by (simp add: fifo_view_def fifo_step.idle)
qed

interpretation delivery: simulation
  "hal_step K process" "fifo_step (unat (kMaxSizePendingWriteEventsQueue K))" "queue_inv K" fifo_view
  for K process
  by unfold_locales (auto intro: step_invariants step_simulates)

subsection \<open>The wake lock\<close>

lemma lock_inv_cong:
  "mWakelockRefCount t = mWakelockRefCount s \<Longrightarrow> wakelock_held (calls t) = wakelock_held (calls s)
     \<Longrightarrow> lock_inv t = lock_inv s"
  by (simp add: lock_inv_def)

lemma lock_inv_write_now: "lock_inv (snd (write_now env es s)) = lock_inv s"
  by (rule lock_inv_cong) (simp_all add: write_now_def Let_def wakelock_held_def)

lemma lock_inv_keep: "lock_inv (keep_pending K es w n s) = lock_inv s"
  by (rule lock_inv_cong) (simp_all add: keep_pending_def Let_def wakelock_held_def)

lemma lock_inv_als: "lock_inv (s\<lparr>als_world := a\<rparr>) = lock_inv s"
  by (rule lock_inv_cong) simp_all

lemma lock_inv_post:
  "lock_inv s \<Longrightarrow> lock_inv (postEventsToMessageQueue K process env es w locked s)"
  unfolding post_unfold(1) by (simp add: lock_inv_keep lock_inv_write_now lock_inv_als lock_inv_increment)

lemma lock_inv_sensors: "lock_inv (snd (countNumWakeupEvents K es n s)) = lock_inv s"
  by (rule lock_inv_cong) simp_all

lemma lock_inv_pending:
  "lock_inv (s\<lparr>mPendingWriteEventsQueue := q\<rparr>) = lock_inv s"
  "lock_inv (s\<lparr>mSizePendingWriteEventsQueue := n\<rparr>) = lock_inv s"
  "lock_inv (emit [FMQ_WRITE es] s) = lock_inv s"
  by (rule lock_inv_cong; simp add: wakelock_held_def)+

lemma lock_inv_written:
  assumes "lock_inv s"
  shows "lock_inv (handlePendingWrites_written K q n w ok s)"
  using assms lock_inv_sensors [of K _ q s]
  by (simp add: handlePendingWrites_written_def Let_def case_prod_unfold lock_inv_pending
      lock_inv_decrement split: list.split)

lemma lock_inv_erase: "lock_inv (handlePendingWrites_erase q n s) = lock_inv s"
  by (simp add: handlePendingWrites_erase_def Let_def lock_inv_pending split: list.split)

lemma lock_inv_hal_fields:
  "lock_inv (s\<lparr>mPendingWritesThread := a\<rparr>) = lock_inv s"
  "lock_inv (s\<lparr>mWakelockThread := b\<rparr>) = lock_inv s"
  "lock_inv (s\<lparr>mThreadsRun := c\<rparr>) = lock_inv s"
  "lock_inv (s\<lparr>mSubHalList := d\<rparr>) = lock_inv s"
  by (rule lock_inv_cong; simp)+

lemma lock_inv_dynamic:
  "lock_inv (onDynamicSensorsConnected K xs i s) = lock_inv s"
  "lock_inv (onDynamicSensorsDisconnected K hs i s) = lock_inv s"
  "lock_inv (snd (setOperationMode ops m s)) = lock_inv s"
  by (rule lock_inv_cong; simp add: onDynamicSensorsConnected_def onDynamicSensorsDisconnected_def
      setOperationMode_def emit_def wakelock_held_def Let_def case_prod_unfold)+

lemma lock_inv_call: "lock_inv (snd (proxy_call K ops conv c s)) = lock_inv s"
  by (subst proxy_call_frame(1)) (simp only: lock_inv_hal_fields)

lemma lock_inv_direct:
  "lock_inv (snd (registerDirectChannel ops mem s)) = lock_inv s"
  "lock_inv (snd (unregisterDirectChannel ops ch s)) = lock_inv s"
  "lock_inv (snd (configDirectReport K ops h ch rate s)) = lock_inv s"
  by (rule lock_inv_cong; simp add: registerDirectChannel_def unregisterDirectChannel_def
      configDirectReport_def call_sub_hal_def case_prod_unfold Let_def split: option.split)+

lemma lock_inv_init:
  "lock_inv (snd (call_sub_hal i f s)) = lock_inv s"
  "lock_inv (s\<lparr>mCurrentOperationMode := m\<rparr>) = lock_inv s"
  by (rule lock_inv_cong; simp add: call_sub_hal_def case_prod_unfold Let_def)+

lemma lock_inv_debug: "lock_inv (snd (debug D now fd args s)) = lock_inv s"
  using debug_frame [of D now fd args s] lock_inv_hal_fields(4) by metis

lemma step_lock:
  assumes "hal_step K process s l t" and "lock_inv s"
  shows "lock_inv t"
  using assms
proof (cases rule: hal_step.cases)
  case (check now now' u pc)
  then show ?thesis
    using lock_inv_check [OF assms(2), of K now now'] by (simp add: lock_inv_hal_fields)
qed (simp_all add: lock_inv_hal_fields lock_inv_post lock_inv_written lock_inv_erase lock_inv_read
    lock_inv_increment lock_inv_decrement lock_inv_dynamic lock_inv_call lock_inv_direct lock_inv_debug
    initialized_start(5) restarted_lock lock_inv_init)

lemma run_lock: "hal_run K process s ls t \<Longrightarrow> lock_inv s \<Longrightarrow> lock_inv t"
  by (erule run_invariant) (auto intro: step_lock)

subsection \<open>Properties\<close>

text \<open>An example run: a wake-up event is posted after the initialisation.\<close>

definition example_started :: "(unit, sensor_info list) hal_proxy" where
  "example_started = snd (initializeCommon example_consts example_ops example_start 8 (example_proxy []))"

definition example_posted :: "(unit, sensor_info list) hal_proxy" where
  "example_posted = postEventsToMessageQueue example_consts Pair
     \<lparr>post_now = 95, availableToWrite = 0, write_succeeds = True\<rparr> [example_event 1] 1 True example_started"

definition example_trace :: "event label list" where
  "example_trace = [POST (posted_events Pair [example_event 1] example_started)]"

lemma example_run: "hal_run example_consts Pair example_started example_trace example_posted"
  unfolding example_trace_def example_posted_def
  by (rule run_one, rule hal_step.post) (simp add: vector_ok_def)

lemma limit_ok_example: "limit_ok example_consts"
  by (simp add: limit_ok_def example_consts_def)

lemma example_started_count: "mThreadsRun example_started \<and> mWakelockRefCount example_started = 0"
proof -
  obtain hals where e: "example_started
      = (restarted example_start 8 (quiet example_consts example_ops example_start (example_proxy [])))
          \<lparr>mSubHalList := hals, mCurrentOperationMode := NORMAL\<rparr>"
    unfolding example_started_def using initialized_state by blast
  have "mThreadsRun example_started" unfolding e by (simp add: restarted_def)
  moreover have "mWakelockRefCount example_started = 0"
    unfolding example_started_def initialized_lock by (simp add: example_proxy_def)
  ultimately show ?thesis by simp
qed

lemma initialized_queue_inv:
  assumes "limit_ok K" and "s = snd (initializeCommon K ops env q s0)"
  shows "queue_inv K s" and "fifo_view s = (written (calls s), 0, [])"
  using assms initialized_start [where K = K and ops = ops and env = env and q = q and s = s0]
  by (simp_all add: queue_inv_def fifo_view_def waiting_events_def)

lemma run_refines_line:
  assumes "limit_ok K" and "s = snd (initializeCommon K ops env q s0)"
    and "hal_run K process s ls t"
  shows "fifo_run (unat (kMaxSizePendingWriteEventsQueue K))
           (written (calls s), 0, []) ls (written (calls t), in_flight t, waiting_events t)"
  using delivery.run_simulates [OF assms(3) initialized_queue_inv(1) [OF assms(1,2)]]
    initialized_queue_inv(2) [OF assms(1,2)]
  by (simp add: fifo_view_def)

text \<open>
  C1: the proxy refines a line of events.  From an initialisation on, whatever the sub-HALs, the
  framework and the two threads do, in whatever order their steps are taken, and however
  often the proxy is initialised again, what the framework has got and what still waits to be
  written develop like in the abstract line, which has one list for each: what is offered is
  delivered at once as far as possible if the line is empty, the rest waits if the limit
  allows it for all of the rest, a write takes from the front (and the places of what was
  written become free only when the thread has the mutex again), and an initialisation starts
  with an empty line.
\<close>

theorem proxy_refines_line:
  assumes "limit_ok K" and "s = snd (initializeCommon K ops env q s0)"
    and "hal_run K process s ls t"
  shows "fifo_run (unat (kMaxSizePendingWriteEventsQueue K))
           (written (calls s), 0, []) ls (written (calls t), in_flight t, waiting_events t)"
  using assms by (rule run_refines_line)

theorem proxy_refines_line_witness:
  "fifo_run (unat (kMaxSizePendingWriteEventsQueue example_consts))
     (written (calls example_started), 0, []) example_trace
     (written (calls example_posted), in_flight example_posted, waiting_events example_posted)"
  by (rule proxy_refines_line [OF limit_ok_example example_started_def example_run])

text \<open>
  C3: events arrive in order.  From an initialisation on, whatever the sub-HALs, the framework
  and the two threads do and in whatever order their steps are taken, what the framework has
  been given since, followed by what still waits to be written, is a selection of the events
  that were offered, in the order in which they were offered: none is repeated, and none overtakes
  another, although the pending events are written with the mutex
  released and stay in the queue until the thread has it again.
\<close>

theorem interleaved_events_in_order:
  assumes "limit_ok K" and "s = snd (initializeCommon K ops env q s0)"
    and "hal_run K process s ls t"
  shows "\<exists>new. written (calls t) = written (calls s) @ new
           \<and> subseq (new @ waiting_events t) (offered ls)"
  using fifo_run_order [OF run_refines_line [OF assms]] by simp

theorem interleaved_events_in_order_witness:
  "\<exists>new. written (calls example_posted) = written (calls example_started) @ new
     \<and> subseq (new @ waiting_events example_posted) (offered example_trace)"
  by (rule interleaved_events_in_order [OF limit_ok_example example_started_def example_run])

text \<open>
  Nothing is lost without a cause.  If no more events are offered than may be pending, no
  write of the pending writes thread fails and the proxy is not initialised again, then what
  the framework has been given, followed by what still waits to be written, is exactly what
  was offered.
\<close>

lemma interleaved_events_complete:
  assumes "limit_ok K" and "s = snd (initializeCommon K ops env q s0)"
    and "hal_run K process s ls t"
    and "length (offered ls) \<le> unat (kMaxSizePendingWriteEventsQueue K)"
    and "WRITE False \<notin> set ls" and "RESTART \<notin> set ls"
  shows "written (calls t) @ waiting_events t = written (calls s) @ offered ls"
  using fifo_run_lossless [OF run_refines_line [OF assms(1-3)] assms(5,6)] assms(4) by simp

text \<open>Three steps of the pending writes thread write and remove some of the pending events.\<close>

lemma pending_progress:
  fixes t :: "('a, 'r) hal_proxy"
  assumes inv: "delivery_inv K t"
    and run: "mThreadsRun t" and wait: "mPendingWritesThread t = Some PW_WAITING"
    and cap: "mEventQueue t = Some c" "0 < c" and pending: "mPendingWriteEventsQueue t \<noteq> []"
  shows "\<exists>u v x. hal_step K process t TAU u \<and> hal_step K process u (WRITE True) v
    \<and> hal_step K process v TAU x \<and> length (backlog x) < length (backlog t)"
proof -
  obtain xs w rest where front: "mPendingWriteEventsQueue t = (xs, w) # rest"
    using pending by (metis list.exhaust surj_pair)
  let ?n = "min (length xs) c"
  let ?u = "t\<lparr>mPendingWritesThread := Some (PW_WRITING c ?n w)\<rparr>"
  let ?v = "(handlePendingWrites_written K c ?n w True ?u)\<lparr>mPendingWritesThread := Some (PW_ERASING c ?n)\<rparr>"
  let ?x = "(handlePendingWrites_erase c ?n ?v)\<lparr>mPendingWritesThread := Some PW_WAITING\<rparr>"
  have "handlePendingWrites_take c t = PW_WRITING c ?n w"
    using run front by (simp add: handlePendingWrites_take_def)
  then have "hal_step K process t TAU ?u"
    using hal_step.take [OF wait _ cap(1), of K process] pending by (simp add: pending_wait_ready_def)
  moreover have "hal_step K process ?u (WRITE True) ?v"
    by (rule hal_step.written) simp
  moreover have "hal_step K process ?v TAU ?x"
    by (rule hal_step.erase) simp
  moreover have "length (backlog ?x) < length (backlog t)"
  proof -
    have "mPendingWriteEventsQueue ?v = (xs, w) # rest"
      by (simp add: written_front front)
    then have "backlog ?x = drop ?n (backlog ?v)"
      by (subst backlog_thread) (rule erase_backlog)
    moreover have "backlog ?v = backlog t"
      by (simp add: backlog_def written_front)
    ultimately have "backlog ?x = drop ?n (backlog t)" by simp
    moreover have "0 < length xs"
      using inv front by (auto simp: delivery_inv_def)
    then have "0 < ?n" and "0 < length (backlog t)"
      using cap(2) front by (simp_all add: backlog_def)
    ultimately show ?thesis by (simp only: length_drop diff_less)
  qed
  ultimately show ?thesis by blast
qed

text \<open>
  C15: in every reachable state the count of the pending events is right and within its limit,
  and from the time the pending writes thread takes a list until it removes it, that list is
  the front of the queue.  So the thread is never stuck: while it may run and waits with
  events pending, three steps of its own make it write and remove some of them.
\<close>

theorem interleaved_pending_sound:
  assumes "limit_ok K" and "s = snd (initializeCommon K ops env q s0)"
    and "hal_run K process s ls t"
  shows "delivery_inv K t \<and> thread_inv t
    \<and> (mThreadsRun t \<and> mPendingWritesThread t = Some PW_WAITING \<and> mEventQueue t = Some c \<and> 0 < c
        \<and> mPendingWriteEventsQueue t \<noteq> [] \<longrightarrow>
        (\<exists>u v x. hal_step K process t TAU u \<and> hal_step K process u (WRITE True) v
             \<and> hal_step K process v TAU x \<and> length (backlog x) < length (backlog t)))"
proof -
  have inv: "delivery_inv K t" "thread_inv t"
    using delivery.run_keeps [OF assms(3) initialized_queue_inv(1) [OF assms(1,2)]]
    by (simp_all add: queue_inv_def)
  with pending_progress [OF inv(1), of c process] show ?thesis by blast
qed

theorem interleaved_pending_sound_witness:
  "delivery_inv example_consts example_posted \<and> thread_inv example_posted"
  using interleaved_pending_sound [OF limit_ok_example example_started_def example_run] by blast

text \<open>
  C16: the kernel wake lock is held in every reachable state in which the reference count is
  positive, so the device cannot go to sleep while a wake-up event is unacknowledged.
\<close>

theorem interleaved_wakelock_held:
  assumes "mWakelockRefCount s0 = 0" and "s = snd (initializeCommon K ops env q s0)"
    and "hal_run K process s ls t" and "0 < mWakelockRefCount t"
  shows "wakelock_held (calls t)"
proof -
  have "lock_inv s"
    unfolding assms(2) initialized_start(5) using assms(1) by (simp add: lock_inv_def)
  with run_lock [OF assms(3)] assms(4) show ?thesis by (simp add: lock_inv_def)
qed

theorem interleaved_wakelock_held_witness: "wakelock_held (calls example_posted)"
proof (rule interleaved_wakelock_held [OF _ example_started_def example_run])
  show "mWakelockRefCount (example_proxy []) = 0"
    by (simp add: example_proxy_def)
  show "0 < mWakelockRefCount example_posted"
    using example_started_count
    by (simp add: example_posted_def postEventsToMessageQueue_def keep_pending_def write_now_def
        wakelock_defs case_prod_unfold)
qed

end
