(* ===== verification/Hal_Proxy_Callback.thy ===== *)
theory Hal_Proxy_Callback
  imports Light_Correction Sensor_Handle
begin

text \<open>
  \<open>HalProxyCallback.cpp\<close>: the object through which one sub-HAL posts its events.  It adds
  the index of the sub-HAL to the handles, counts the wake-up events, and calls the proxy
  behind the interface \<open>ISubHalCallback\<close>.

  The interface is declared outside the repository: \<open>areThreadsRunning\<close>,
  \<open>getSensorInfo\<close> and \<open>postEventsToMessageQueue\<close> are arguments of the functions here, on an
  unknown state of type \<open>'s\<close>.  \<open>ALOG_ASSERT\<close> aborts in builds with assertions, which is a
  parameter, and does nothing in the others.
\<close>

subsection \<open>Operations\<close>

text \<open>The loop of \<open>processEvents\<close>, from a number of wake-up events on.\<close>

fun process_loop :: "hal_consts \<Rightarrow> i32 \<Rightarrow> (i32 \<Rightarrow> 's \<Rightarrow> sensor_info \<times> 's) \<Rightarrow> size_t
    \<Rightarrow> event list \<Rightarrow> 's \<Rightarrow> (event list \<times> size_t) \<times> 's" where
  "process_loop K mSubHalIndex getSensorInfo numWakeupEvents [] s = (([], numWakeupEvents), s)"
| "process_loop K mSubHalIndex getSensorInfo numWakeupEvents (event # events) s =
     (let event = event\<lparr>sensorHandle :=
                    callback_setSubHalIndex (sensorHandle event) (scast mSubHalIndex)\<rparr>;
          event = (if sensorType event = DYNAMIC_SENSOR_META K
                   then event\<lparr>u_dynamic_sensorHandle :=
                          callback_setSubHalIndex (u_dynamic_sensorHandle event) (scast mSubHalIndex)\<rparr>
                   else event);
          (sensor, s) = getSensorInfo (sensorHandle event) s;
          numWakeupEvents = (if info_flags sensor AND WAKE_UP K \<noteq> 0
                             then numWakeupEvents + 1 else numWakeupEvents);
          ((eventsOut, numWakeupEvents), s) =
            process_loop K mSubHalIndex getSensorInfo numWakeupEvents events s
      in ((event # eventsOut, numWakeupEvents), s))"

definition processEvents :: "hal_consts \<Rightarrow> i32 \<Rightarrow> (i32 \<Rightarrow> 's \<Rightarrow> sensor_info \<times> 's)
    \<Rightarrow> event list \<Rightarrow> 's \<Rightarrow> (event list \<times> size_t) \<times> 's" where
  "processEvents K mSubHalIndex getSensorInfo events s =
     process_loop K mSubHalIndex getSensorInfo 0 events s"

text \<open>The condition of the assertion.\<close>

definition lock_matches :: "size_t \<Rightarrow> bool \<Rightarrow> bool" where
  "lock_matches numWakeupEvents wakelock_isLocked \<longleftrightarrow>
     (if 0 < numWakeupEvents then wakelock_isLocked else \<not> wakelock_isLocked)"

text \<open>\<open>None\<close> is an abort.\<close>

definition postEvents :: "hal_consts \<Rightarrow> i32 \<Rightarrow> ('s \<Rightarrow> bool) \<Rightarrow> (i32 \<Rightarrow> 's \<Rightarrow> sensor_info \<times> 's)
    \<Rightarrow> (event list \<Rightarrow> size_t \<Rightarrow> bool \<Rightarrow> 's \<Rightarrow> 's) \<Rightarrow> bool
    \<Rightarrow> event list \<Rightarrow> bool \<Rightarrow> 's \<Rightarrow> 's option" where
  "postEvents K mSubHalIndex areThreadsRunning getSensorInfo post assertions
     events wakelock_isLocked s =
     (if events = [] \<or> \<not> areThreadsRunning s then Some s
      else
        let ((processedEvents, numWakeupEvents), s) =
              processEvents K mSubHalIndex getSensorInfo events s
        in if assertions \<and> \<not> lock_matches numWakeupEvents wakelock_isLocked then None
           else Some (post processedEvents numWakeupEvents wakelock_isLocked s))"

text \<open>The class \<open>ScopedWakelock\<close> and its constructor are outside the repository.\<close>

definition createScopedWakelock :: "('counter \<Rightarrow> bool \<Rightarrow> 'w) \<Rightarrow> 'counter \<Rightarrow> bool \<Rightarrow> 'w" where
  "createScopedWakelock ScopedWakelock mRefCounter lock = ScopedWakelock mRefCounter lock"

subsection \<open>The events that are posted\<close>

definition tagged :: "hal_consts \<Rightarrow> i32 \<Rightarrow> event \<Rightarrow> event" where
  "tagged K i e = e
     \<lparr>sensorHandle := setSubHalIndex (sensorHandle e) (scast i),
      u_dynamic_sensorHandle :=
        (if sensorType e = DYNAMIC_SENSOR_META K
         then setSubHalIndex (u_dynamic_sensorHandle e) (scast i) else u_dynamic_sensorHandle e)\<rparr>"

lemma tagged_frame [simp]:
  "timestamp (tagged K i e) = timestamp e"
  "sensorType (tagged K i e) = sensorType e"
  "u_scalar (tagged K i e) = u_scalar e"
  by (simp_all add: tagged_def)

lemma process_loop_events: "fst (fst (process_loop K i gsi n es s)) = map (tagged K i) es"
proof (induction es arbitrary: n s)
  case (Cons e es)
  then show ?case
    by (simp add: Let_def case_prod_unfold tagged_def callback_setSubHalIndex_eq)
qed simp

lemma process_events: "fst (fst (processEvents K i gsi es s)) = map (tagged K i) es"
  by (simp add: processEvents_def process_loop_events)

lemma scast_of_nat_small:
  assumes "i < 128"
  shows "(scast (of_nat i :: i32) :: size_t) = of_nat i"
proof -
  have "sint (of_nat i :: i32) = int i"
    using assms by (simp add: sint_sbintrunc' signed_of_nat signed_take_bit_int_eq_self)
  then show ?thesis by (metis of_int_of_nat_eq of_int_sint)
qed

text \<open>With a \<open>getSensorInfo\<close> that only reads.\<close>

definition flagged_wakeup :: "hal_consts \<Rightarrow> (i32 \<Rightarrow> sensor_info) \<Rightarrow> event \<Rightarrow> bool" where
  "flagged_wakeup K info e \<longleftrightarrow> info_flags (info (sensorHandle e)) AND WAKE_UP K \<noteq> 0"

lemma tagged_handle: "sensorHandle (tagged K i e) = setSubHalIndex (sensorHandle e) (scast i)"
  by (simp add: tagged_def)

lemma process_loop_at:
  assumes "\<forall>e\<in>set es. gsi (setSubHalIndex (sensorHandle e) (scast i)) t = (f e, t)"
  shows "process_loop K i gsi n es t
    = ((map (tagged K i) es,
        n + of_nat (length (filter (\<lambda>e. info_flags (f e) AND WAKE_UP K \<noteq> 0) es))), t)"
  using assms
proof (induction es arbitrary: n)
  case (Cons e es)
  then have "gsi (callback_setSubHalIndex (sensorHandle e) (scast i)) t = (f e, t)"
    by (simp add: callback_setSubHalIndex_eq)
  with Cons show ?case
    by (simp add: Let_def case_prod_unfold tagged_def callback_setSubHalIndex_eq)
qed simp

lemma process_loop_reading:
  "process_loop K i (\<lambda>h s. (info s h, s)) n es s
     = ((map (tagged K i) es,
         n + of_nat (length (filter (flagged_wakeup K (info s)) (map (tagged K i) es)))), s)"
  using process_loop_at [of es "\<lambda>h s. (info s h, s)" i s "\<lambda>e. info s (setSubHalIndex (sensorHandle e) (scast i))" K n]
  by (simp add: filter_map comp_def flagged_wakeup_def tagged_handle)

text \<open>Several sub-HALs post one after the other, each batch with its index and surroundings.\<close>

fun post_all :: "hal_consts \<Rightarrow> ('s \<Rightarrow> bool) \<Rightarrow> (i32 \<Rightarrow> 's \<Rightarrow> sensor_info \<times> 's)
    \<Rightarrow> ('env \<Rightarrow> event list \<Rightarrow> size_t \<Rightarrow> bool \<Rightarrow> 's \<Rightarrow> 's)
    \<Rightarrow> (i32 \<times> 'env \<times> event list \<times> bool) list \<Rightarrow> 's \<Rightarrow> 's option" where
  "post_all K running gsi post [] s = Some s"
| "post_all K running gsi post ((i, env, es, locked) # bs) s =
     (case postEvents K i running gsi (post env) False es locked s of
        None \<Rightarrow> None | Some s \<Rightarrow> post_all K running gsi post bs s)"

subsection \<open>The interface behind which the proxy receives the events\<close>

text \<open>
  What a sub-HAL's object relies on: looking at a sensor changes nothing the framework sees,
  and posting appends a beginning of the list to what the framework will see.
\<close>

locale sub_hal_callback =
  fixes running :: "'s \<Rightarrow> bool"
    and getSensorInfo :: "i32 \<Rightarrow> 's \<Rightarrow> sensor_info \<times> 's"
    and post :: "'env \<Rightarrow> event list \<Rightarrow> size_t \<Rightarrow> bool \<Rightarrow> 's \<Rightarrow> 's"
    and seen :: "'s \<Rightarrow> int list"
  assumes info_seen: "seen (snd (getSensorInfo h s)) = seen s"
    and post_seen: "\<exists>n. seen (post env es w locked s) = seen s @ take n (map timestamp es)"
begin

lemma process_seen: "seen (snd (processEvents K i getSensorInfo es s)) = seen s"
proof -
  have "seen (snd (process_loop K i getSensorInfo n es s)) = seen s" for n
    by (induction es arbitrary: n s) (simp_all add: Let_def case_prod_unfold info_seen)
  then show ?thesis by (simp add: processEvents_def)
qed

lemma post_events_seen:
  assumes "postEvents K i running getSensorInfo (post env) assertions es locked s = Some t"
  shows "\<exists>n. seen t = seen s @ take n (map timestamp es)"
proof (cases "es = [] \<or> \<not> running s")
  case True
  then have "t = s" using assms by (simp add: postEvents_def)
  then show ?thesis by (intro exI [of _ 0]) simp
next
  case False
  let ?p = "processEvents K i getSensorInfo es s"
  have t: "t = post env (fst (fst ?p)) (snd (fst ?p)) locked (snd ?p)"
    using assms False by (simp add: postEvents_def Let_def case_prod_unfold split: if_splits)
  have "map timestamp (fst (fst ?p)) = map timestamp es"
    by (simp add: process_events comp_def)
  then show ?thesis
    using post_seen [of env "fst (fst ?p)" "snd (fst ?p)" locked "snd ?p"]
    by (simp add: t process_seen)
qed

lemma post_all_seen:
  assumes "post_all K running getSensorInfo post bs s = Some t"
  shows "\<exists>ts. subseq ts (map timestamp (concat (map (\<lambda>(i, env, es, locked). es) bs)))
              \<and> seen t = seen s @ ts"
  using assms
proof (induction bs arbitrary: s)
  case (Cons b bs)
  obtain i env es locked where b: "b = (i, env, es, locked)" by (cases b)
  obtain u where u: "postEvents K i running getSensorInfo (post env) False es locked s = Some u"
    and rest: "post_all K running getSensorInfo post bs u = Some t"
    using Cons.prems by (auto simp: b split: option.splits)
  obtain n where "seen u = seen s @ take n (map timestamp es)"
    using post_events_seen [OF u] by blast
  moreover obtain ts where "subseq ts (map timestamp (concat (map (\<lambda>(i, env, es, locked). es) bs)))"
    and "seen t = seen u @ ts"
    using Cons.IH [OF rest] by blast
  moreover have "subseq (take n (map timestamp es)) (map timestamp es)"
    by (metis append_take_drop_id subseq_append_drop subseq_order.order_refl)
  ultimately show ?case
    by (intro exI [of _ "take n (map timestamp es) @ ts"]) (simp add: b list_emb_append_mono)
qed simp

end

text \<open>
  The proxy is such a provider, with the correction of light events, and with every
  \<open>getSensorInfo\<close> that reads the sensors without changing the state.
\<close>

interpretation proxy_callback: sub_hal_callback
  "\<lambda>s. mThreadsRun s" "\<lambda>h s. (info s h, s)"
  "postEventsToMessageQueue K (als_process_next pow inputs)"
  "\<lambda>s. map timestamp (written (calls s) @ backlog s)"
  for info K pow inputs
proof
  fix env es w locked and s :: "(als_statics \<times> nat, 'z) delivery_state_scheme"
  let ?s = "postEventsToMessageQueue K (als_process_next pow inputs) env es w locked s"
  let ?ev = "posted_events (als_process_next pow inputs) es s"
  obtain n where "written (calls ?s) @ backlog ?s = written (calls s) @ backlog s @ take n ?ev"
    using post_stream [of K "als_process_next pow inputs" env es w locked s] by blast
  moreover have "map timestamp ?ev = map timestamp es"
    by (rule als.posted_timestamps)
  ultimately show "\<exists>n. map timestamp (written (calls ?s) @ backlog ?s)
      = map timestamp (written (calls s) @ backlog s) @ take n (map timestamp es)"
    by (metis append.assoc map_append take_map)
qed simp

subsection \<open>Properties\<close>

text \<open>
  \<open>processEvents\<close> keeps the events in their order, with the index of the sub-HAL in their
  handles, and the number it stores is the number of events whose sensor, looked up under the
  handle with the index, has the wake-up flag.
\<close>

lemma process_events_functional:
  "processEvents K i (\<lambda>h s. (info s h, s)) es s
     = ((map (tagged K i) es,
         of_nat (length (filter (flagged_wakeup K (info s)) (map (tagged K i) es)))), s)"
  by (simp add: processEvents_def process_loop_reading)

text \<open>
  Nothing overtakes.  When any number of sub-HALs post lists of events in some order, what
  the framework has read or will read is what it had before followed by some of the posted
  events, in the order in which they were posted: no event is duplicated, invented or moved
  before an earlier one.
\<close>

lemma posted_order_kept:
  assumes "post_all K (\<lambda>s. mThreadsRun s) (\<lambda>h s. (info s h, s))
             (postEventsToMessageQueue K (als_process_next pow inputs)) bs s = Some t"
  shows "\<exists>ts. subseq ts (map timestamp (concat (map (\<lambda>(i, env, es, locked). es) bs)))
       \<and> map timestamp (written (calls t) @ backlog t)
         = map timestamp (written (calls s) @ backlog s) @ ts"
  using assms by (rule proxy_callback.post_all_seen)

definition example_posts :: "(i32 \<times> post_env \<times> event list \<times> bool) list" where
  "example_posts =
     [(0, \<lparr>post_now = 50, availableToWrite = 1, write_succeeds = True\<rparr>,
          [example_event 1, example_event 2], False),
      (1, \<lparr>post_now = 60, availableToWrite = 0, write_succeeds = True\<rparr>, [example_event 3], False)]"

definition example_receiver :: "(als_statics \<times> nat) delivery_state" where
  "example_receiver =
     \<lparr>mThreadsRun = True, mWakelockRefCount = 0, mWakelockTimeoutStartTime = 0,
      mWakelockTimeoutResetTime = 0, calls = [], mSensors = [], mPendingWriteEventsQueue = [],
      mSizePendingWriteEventsQueue = 0, mMostEventsObservedPendingWriteEventsQueue = 0,
      als_world = (als_initially, 0)\<rparr>"

lemma post_all_returns: "post_all K running gsi post bs s \<noteq> None"
  by (induction bs arbitrary: s)
    (auto simp: postEvents_def Let_def case_prod_unfold split: option.split)

text \<open>
  Posting stops with the threads.  In a build with assertions it aborts exactly when the
  threads run, there are events, and the scoped wake lock does not match whether one of
  them is a wake-up event; without threads or events nothing happens.
\<close>

lemma post_aborts_iff:
  "postEvents K i running (\<lambda>h s. (info s h, s)) post assertions es locked s = None
     \<longleftrightarrow> assertions \<and> es \<noteq> [] \<and> running s
       \<and> \<not> lock_matches
             (of_nat (length (filter (flagged_wakeup K (info s)) (map (tagged K i) es)))) locked"
  by (auto simp: postEvents_def processEvents_def process_loop_reading lock_matches_def Let_def)

end
