(* ===== verification/Event_Origin.thy ===== *)
theory Event_Origin
  imports Hal_Interleaving Hal_Proxy_Callback
begin

text \<open>
  The sub-HALs' callback objects and the running proxy together: each sub-HAL posts its events
  through its own \<open>HalProxyCallback\<close>, which tags them, while everything else that the proxy
  does goes on.  What the framework gets under the index of a sub-HAL is what this sub-HAL
  posted.
\<close>

subsection \<open>Sub-HALs that post through their callbacks\<close>

text \<open>
  \<open>areThreadsRunning\<close> and \<open>getSensorInfo\<close> of the proxy are defined in a header outside the
  repository, and are arguments; the second hands out an entry of \<open>mSensors\<close> and may add one.
\<close>

definition only_looks_up :: "(i32 \<Rightarrow> ('a, 'r) hal_proxy \<Rightarrow> sensor_info \<times> ('a, 'r) hal_proxy) \<Rightarrow> bool" where
  "only_looks_up getSensorInfo \<longleftrightarrow> (\<forall>h s. \<exists>m. snd (getSensorInfo h s) = s\<lparr>mSensors := m\<rparr>)"

text \<open>
  The label of a step says which sub-HAL posts which events, if one does, and what becomes of
  the events as in \<open>hal_step\<close>.  A callback tags the events and counts the wake-up events
  before the proxy takes its mutex, so it may have looked at an earlier state \<open>u\<close>; each of
  its look-ups is a step of its own.
\<close>

type_synonym post_label = "(nat \<times> event list) option \<times> event label"

inductive post_step :: "hal_consts \<Rightarrow> (event \<Rightarrow> 'a \<Rightarrow> event \<times> 'a)
    \<Rightarrow> (('a, 'r) hal_proxy \<Rightarrow> bool)
    \<Rightarrow> (i32 \<Rightarrow> ('a, 'r) hal_proxy \<Rightarrow> sensor_info \<times> ('a, 'r) hal_proxy) \<Rightarrow> bool
    \<Rightarrow> ('a, 'r) hal_proxy \<Rightarrow> post_label \<Rightarrow> ('a, 'r) hal_proxy \<Rightarrow> bool"
  for K process areThreadsRunning getSensorInfo assertions where
  sub_hal: "es \<noteq> [] \<Longrightarrow> vector_ok es \<Longrightarrow> areThreadsRunning u \<Longrightarrow>
     postEvents K (of_nat i) areThreadsRunning getSensorInfo
       (\<lambda>events n isLocked _. postEventsToMessageQueue K process env events n isLocked s)
       assertions es locked u = Some t \<Longrightarrow>
     post_step K process areThreadsRunning getSensorInfo assertions s
       (Some (i, es),
        POST (posted_events process
          (fst (fst (processEvents K (of_nat i) getSensorInfo es u))) s)) t"
| look_up: "post_step K process areThreadsRunning getSensorInfo assertions s
     (None, TAU) (snd (getSensorInfo h s))"
| proxy: "hal_step K process s l t \<Longrightarrow> (\<And>es. l \<noteq> POST es) \<Longrightarrow>
     post_step K process areThreadsRunning getSensorInfo assertions s (None, l) t"

text \<open>What sub-HAL \<open>i\<close> posted in a run.\<close>

definition posted_by :: "nat \<Rightarrow> post_label list \<Rightarrow> event list" where
  "posted_by i ls = concat (map (\<lambda>l. case fst l of
     Some (j, es) \<Rightarrow> if j = i then es else [] | None \<Rightarrow> []) ls)"

lemma posted_by_simps [simp]:
  "posted_by i [] = []"
  "posted_by i (l # ls) = (case fst l of
     Some (j, es) \<Rightarrow> if j = i then es else [] | None \<Rightarrow> []) @ posted_by i ls"
  by (simp_all add: posted_by_def)

text \<open>At most 128 sub-HALs post, under handles with a clear first byte.\<close>

definition clear_posts :: "hal_consts \<Rightarrow> post_label list \<Rightarrow> bool" where
  "clear_posts K ls = list_all (\<lambda>l. case fst l of
     Some (j, es) \<Rightarrow> j < 128 \<and> list_all (\<lambda>e. subHalIndexIsClear K (sensorHandle e)) es
   | None \<Rightarrow> True) ls"

lemma clear_posts_simps [simp]:
  "clear_posts K []"
  "clear_posts K (l # ls) \<longleftrightarrow> (case fst l of
     Some (j, es) \<Rightarrow> j < 128 \<and> list_all (\<lambda>e. subHalIndexIsClear K (sensorHandle e)) es
   | None \<Rightarrow> True) \<and> clear_posts K ls"
  by (simp_all add: clear_posts_def)

subsection \<open>The steps as steps of the line of events\<close>

lemma post_step_hal:
  assumes "post_step K process running gsi assertions s l t" and "only_looks_up gsi"
  obtains (hal) "hal_step K process s (snd l) t"
  | (look_up) "snd l = TAU" "queue_view t = queue_view s"
  using assms(1)
proof (cases rule: post_step.cases)
  case (sub_hal es u i env locked)
  let ?p = "processEvents K (of_nat i) gsi es u"
  have "t = postEventsToMessageQueue K process env (fst (fst ?p)) (snd (fst ?p)) locked s"
    using sub_hal(2,4,5) by (simp add: postEvents_def Let_def case_prod_unfold split: if_splits)
  moreover have "vector_ok (fst (fst ?p))"
    using sub_hal(3) by (simp add: vector_ok_def process_events)
  ultimately show thesis
    using sub_hal(1) by (intro hal) (simp add: hal_step.post)
next
  case (look_up h)
  obtain m where "t = s\<lparr>mSensors := m\<rparr>"
    using assms(2) look_up(2) by (auto simp: only_looks_up_def)
  then have "queue_view t = queue_view s" by (simp add: queue_view_def)
  with look_up(1) show thesis by (intro that(2)) simp_all
next
  case (proxy l)
  then show thesis by (intro hal) simp
qed

lemma post_step_keeps:
  assumes "only_looks_up gsi" and "queue_inv K s" and "post_step K process running gsi assertions s l t"
  shows "queue_inv K t"
  using assms(3,1)
proof (cases rule: post_step_hal)
  case hal
  with assms(2) show ?thesis by (rule step_invariants)
next
  case look_up
  with assms(2) view_invariants [OF look_up(2)] show ?thesis by (simp add: queue_inv_def)
qed

lemma post_step_simulates:
  assumes "only_looks_up gsi" and "queue_inv K s" and "post_step K process running gsi assertions s l t"
  shows "fifo_step (unat (kMaxSizePendingWriteEventsQueue K)) (fifo_view s) (snd l) (fifo_view t)"
  using assms(3,1)
proof (cases rule: post_step_hal)
  case hal
  with assms(2) show ?thesis by (rule step_simulates)
next
  case look_up
  with view_invariants [OF look_up(2)] show ?thesis by (simp add: fifo_view_def fifo_step.idle)
qed

interpretation posting: simulation
  "post_step K process running gsi assertions"
  "\<lambda>x l y. fifo_step (unat (kMaxSizePendingWriteEventsQueue K)) x (snd l) y"
  "\<lambda>s. only_looks_up gsi \<and> queue_inv K s" fifo_view
  for K process running gsi assertions
  by unfold_locales (auto intro: post_step_keeps post_step_simulates)

abbreviation post_run :: "hal_consts \<Rightarrow> (event \<Rightarrow> 'a \<Rightarrow> event \<times> 'a)
    \<Rightarrow> (('a, 'r) hal_proxy \<Rightarrow> bool)
    \<Rightarrow> (i32 \<Rightarrow> ('a, 'r) hal_proxy \<Rightarrow> sensor_info \<times> ('a, 'r) hal_proxy) \<Rightarrow> bool
    \<Rightarrow> ('a, 'r) hal_proxy \<Rightarrow> post_label list \<Rightarrow> ('a, 'r) hal_proxy \<Rightarrow> bool" where
  "post_run K process running gsi assertions \<equiv> run (post_step K process running gsi assertions)"

lemma post_run_line:
  assumes "limit_ok K" and "only_looks_up gsi" and "s = snd (initializeCommon K ops env q s0)"
    and "post_run K process running gsi assertions s ls t"
  shows "fifo_run (unat (kMaxSizePendingWriteEventsQueue K)) (written (calls s), 0, [])
           (map snd ls) (written (calls t), in_flight t, waiting_events t)"
proof -
  let ?step = "fifo_step (unat (kMaxSizePendingWriteEventsQueue K))"
  have "run (\<lambda>x l y. ?step x (snd l) y) (fifo_view s) ls (fifo_view t)"
    using posting.run_simulates [OF assms(4)] assms(2) initialized_queue_inv(1) [OF assms(1,3)]
    by blast
  then have "run ?step (fifo_view s) (map snd ls) (fifo_view t)"
    by (rule run_labels [where f = snd])
  then show ?thesis
    using initialized_queue_inv(2) [OF assms(1,3)] by (simp add: fifo_view_def)
qed

subsection \<open>Whose events they are\<close>

text \<open>
  An event as the framework sees it: its sub-HAL, and what identifies it there.  A light event
  that the correction drops gets the handle zero, whose index is 0, and is given to the framework
  all the same, whichever sub-HAL it came from.
\<close>

definition from_sub_hal :: "nat \<Rightarrow> event \<Rightarrow> bool" where
  "from_sub_hal i e \<longleftrightarrow> extractSubHalIndex (sensorHandle e) = of_nat i"

definition dropped_light :: "event \<Rightarrow> bool" where
  "dropped_light e \<longleftrightarrow> sensorType e = SENSOR_TYPE_QTI_WISE_LIGHT \<and> sensorHandle e = 0"

lemma dropped_has_index_0: "dropped_light e \<Longrightarrow> i < 128 \<Longrightarrow> from_sub_hal i e \<longleftrightarrow> i = 0"
  by (auto simp: dropped_light_def from_sub_hal_def extractSubHalIndex_def unat_of_nat_small
      dest: arg_cong [where f = unat])

definition own_key :: "event \<Rightarrow> i32 \<times> int" where
  "own_key e = (sensorHandle e, timestamp e)"

definition proxy_key :: "hal_consts \<Rightarrow> event \<Rightarrow> i32 \<times> int" where
  "proxy_key K e = (clearSubHalIndex K (sensorHandle e), timestamp e)"

definition becomes :: "nat \<Rightarrow> event \<Rightarrow> event \<Rightarrow> bool" where
  "becomes i e e' \<longleftrightarrow> timestamp e' = timestamp e \<and> sensorType e' = sensorType e
     \<and> (sensorHandle e' = setSubHalIndex (sensorHandle e) (of_nat i)
        \<or> sensorHandle e' = 0 \<and> sensorType e = SENSOR_TYPE_QTI_WISE_LIGHT)"

lemma posted_becomes:
  fixes s :: "(als_statics \<times> nat, 'z) delivery_state_scheme"
  assumes "i < 128"
  shows "list_all2 (becomes i) es
    (posted_events (als_process_next pow inputs) (fst (fst (processEvents K (of_nat i) gsi es u))) s)"
  (is "list_all2 _ _ ?ev")
proof -
  let ?tagged = "map (tagged K (of_nat i)) es"
  have ev: "?ev = fst (correct_events (als_process_next pow inputs) ?tagged (als_world s))"
    by (simp add: posted_events_def process_events)
  have "map timestamp ?ev = map timestamp es" "map sensorType ?ev = map sensorType es"
    unfolding ev als.corrected_timestamps als.corrected_types by (simp_all add: comp_def)
  moreover have "list_all2 (\<lambda>e e'. sensorHandle e' = setSubHalIndex (sensorHandle e) (of_nat i)
      \<or> sensorHandle e' = 0 \<and> sensorType e = SENSOR_TYPE_QTI_WISE_LIGHT) es ?ev"
    using als.corrected_handles [of ?tagged pow inputs "als_world s"] assms
    by (simp add: ev list_all2_map1 tagged_handle scast_of_nat_small)
  ultimately show ?thesis
    by (simp add: list_all2_conv_all_nth becomes_def list_eq_iff_nth_eq)
qed

text \<open>One posted list, as seen from a sub-HAL.\<close>

lemma becomes_from:
  assumes "mask_is_first_byte K" and "j < 128" and "i < 128" and "becomes j e e'"
    and "subHalIndexIsClear K (sensorHandle e)" and "sensorHandle e' \<noteq> 0 \<or> sensorType e \<noteq> SENSOR_TYPE_QTI_WISE_LIGHT"
  shows "from_sub_hal i e' \<longleftrightarrow> i = j" and "proxy_key K e' = own_key e"
proof -
  have h: "sensorHandle e' = setSubHalIndex (sensorHandle e) (of_nat j)"
    using assms(4,6) by (auto simp: becomes_def)
  have u: "unat (of_nat k :: size_t) = k" if "k < 128" for k
    using that by (simp add: unat_of_nat_small)
  have "extractSubHalIndex (sensorHandle e') = of_nat j"
    unfolding h using assms(1,2,5) by (intro handle.get_set) (simp_all add: u)
  then show "from_sub_hal i e' \<longleftrightarrow> i = j"
    unfolding from_sub_hal_def using u [OF assms(2)] u [OF assms(3)] by metis
  show "proxy_key K e' = own_key e"
    unfolding proxy_key_def own_key_def h using assms(1,4,5)
    by (simp add: handle.clear_set becomes_def)
qed

lemma block_of_sub_hal:
  assumes "mask_is_first_byte K" and "j < 128" and "i < 128"
    and "list_all2 (becomes j) es ev" and "list_all (\<lambda>e. subHalIndexIsClear K (sensorHandle e)) es"
  shows "subseq (map (proxy_key K) (filter (\<lambda>e. from_sub_hal i e \<and> \<not> dropped_light e) ev))
           (map own_key (if j = i then es else []))"
    and "map (proxy_key K) (filter (\<lambda>e. from_sub_hal i e \<and> sensorType e \<noteq> SENSOR_TYPE_QTI_WISE_LIGHT) ev)
       = map own_key (filter (\<lambda>e. sensorType e \<noteq> SENSOR_TYPE_QTI_WISE_LIGHT) (if j = i then es else []))"
  using assms(4,5)
proof (induction rule: list_all2_induct)
  case (Cons e es e' ev)
  have type: "sensorType e' = sensorType e" using Cons.hyps(1) by (simp add: becomes_def)
  {
    case 1
    then have clear: "subHalIndexIsClear K (sensorHandle e)"
      and IH: "subseq (map (proxy_key K) (filter (\<lambda>e. from_sub_hal i e \<and> \<not> dropped_light e) ev))
        (map own_key (if j = i then es else []))"
      using Cons.IH(1) by simp_all
    show ?case
    proof (cases "dropped_light e'")
      case True
      with IH show ?thesis by (cases "j = i") (auto intro: list_emb_Cons)
    next
      case False
      then have "sensorHandle e' \<noteq> 0 \<or> sensorType e \<noteq> SENSOR_TYPE_QTI_WISE_LIGHT"
        by (auto simp: dropped_light_def type)
      note e' = becomes_from [OF assms(1-3) Cons.hyps(1) clear this]
      show ?thesis
        using IH False e' by (cases "j = i") simp_all
    qed
  next
    case 2
    then show ?case
      using becomes_from [OF assms(1-3) Cons.hyps(1)] Cons.IH(2)
      by (cases "sensorType e = SENSOR_TYPE_QTI_WISE_LIGHT"; cases "i = j") (auto simp: type)
  }
qed simp_all

text \<open>A run of steps.\<close>

definition label_ok :: "post_label \<Rightarrow> bool" where
  "label_ok l \<longleftrightarrow> (case fst l of
     Some (j, es) \<Rightarrow> (\<exists>ev. snd l = POST ev \<and> (j < 128 \<longrightarrow> list_all2 (becomes j) es ev))
   | None \<Rightarrow> offered_by (snd l) = [])"

lemma post_step_label:
  fixes s :: "(als_statics \<times> nat, 'r) hal_proxy"
  assumes "post_step K (als_process_next pow inputs) running gsi assertions s l t"
  shows "label_ok l"
  using assms
proof (cases rule: post_step.cases)
  case (proxy k)
  then show ?thesis by (cases k) (auto simp: label_ok_def)
qed (simp_all add: label_ok_def posted_becomes)

lemma post_run_labels:
  fixes s :: "(als_statics \<times> nat, 'r) hal_proxy"
  assumes "post_run K (als_process_next pow inputs) running gsi assertions s ls t"
  shows "list_all label_ok ls"
  using assms by (induction rule: run.induct) (auto intro: post_step_label)

lemma label_of_sub_hal:
  assumes "mask_is_first_byte K" and "i < 128" and "clear_posts K [l]" and "label_ok l"
  shows "subseq (map (proxy_key K) (filter (\<lambda>e. from_sub_hal i e \<and> \<not> dropped_light e) (offered_by (snd l))))
           (map own_key (posted_by i [l]))"
    and "map (proxy_key K) (filter (\<lambda>e. from_sub_hal i e \<and> sensorType e \<noteq> SENSOR_TYPE_QTI_WISE_LIGHT)
           (offered_by (snd l)))
       = map own_key (filter (\<lambda>e. sensorType e \<noteq> SENSOR_TYPE_QTI_WISE_LIGHT) (posted_by i [l]))"
proof -
  consider (post) j es ev where "fst l = Some (j, es)" "snd l = POST ev" "j < 128"
      "list_all2 (becomes j) es ev" "list_all (\<lambda>e. subHalIndexIsClear K (sensorHandle e)) es"
    | (other) "fst l = None" "offered_by (snd l) = []"
    using assms(3,4) by (auto simp: label_ok_def split: option.splits)
  then show "subseq (map (proxy_key K) (filter (\<lambda>e. from_sub_hal i e \<and> \<not> dropped_light e) (offered_by (snd l))))
        (map own_key (posted_by i [l]))"
    "map (proxy_key K) (filter (\<lambda>e. from_sub_hal i e \<and> sensorType e \<noteq> SENSOR_TYPE_QTI_WISE_LIGHT)
        (offered_by (snd l)))
      = map own_key (filter (\<lambda>e. sensorType e \<noteq> SENSOR_TYPE_QTI_WISE_LIGHT) (posted_by i [l]))"
    using block_of_sub_hal [OF assms(1) _ assms(2)] by (cases; simp)+
qed

lemma offered_of_sub_hal:
  assumes "mask_is_first_byte K" and "i < 128" and "clear_posts K ls" and "list_all label_ok ls"
  shows "subseq (map (proxy_key K) (filter (\<lambda>e. from_sub_hal i e \<and> \<not> dropped_light e) (offered (map snd ls))))
           (map own_key (posted_by i ls))"
    and "map (proxy_key K) (filter (\<lambda>e. from_sub_hal i e \<and> sensorType e \<noteq> SENSOR_TYPE_QTI_WISE_LIGHT) (offered (map snd ls)))
       = map own_key (filter (\<lambda>e. sensorType e \<noteq> SENSOR_TYPE_QTI_WISE_LIGHT) (posted_by i ls))"
  using assms(3,4)
proof (induction ls)
  case (Cons l ls)
  have split: "posted_by i (l # ls) = posted_by i [l] @ posted_by i ls"
    by simp
  have parts: "clear_posts K [l]" "clear_posts K ls" if "clear_posts K (l # ls)"
    using that by simp_all
  {
    case 1
    then have "clear_posts K [l]" "label_ok l" by simp_all
    from label_of_sub_hal(1) [OF assms(1,2) this] Cons.IH(1) 1 show ?case
      unfolding split by (simp add: list_emb_append_mono del: posted_by_simps)
  next
    case 2
    then have "clear_posts K [l]" "label_ok l" by simp_all
    from label_of_sub_hal(2) [OF assms(1,2) this] Cons.IH(2) 2 show ?case
      unfolding split by (simp del: posted_by_simps)
  }
qed simp_all

subsection \<open>Properties\<close>

text \<open>An example run: sub-HAL 1 posts an event after an initialisation.\<close>

definition origin_started :: "(als_statics \<times> nat, sensor_info list) hal_proxy" where
  "origin_started = snd (initializeCommon example_consts example_ops example_start 8
     \<lparr>mThreadsRun = False, mWakelockRefCount = 0, mWakelockTimeoutStartTime = 0,
      mWakelockTimeoutResetTime = 0, calls = [], mSensors = [], mPendingWriteEventsQueue = [],
      mSizePendingWriteEventsQueue = 0, mMostEventsObservedPendingWriteEventsQueue = 0,
      als_world = (als_initially, 0),
      mSubHalList = map SubHalWrapperV2_0 [[], [example_sensor 7 0]], mDynamicSensors = [],
      mDirectChannelSubHal = None, mCurrentOperationMode = NORMAL,
      mDynamicSensorsCallback = False, mEventQueue = None, mWakeLockQueue = False,
      mEventQueueFlag = False, mWakelockQueueFlag = False, mPendingWritesThread = None,
      mWakelockThread = None\<rparr>)"

abbreviation look_nothing :: "i32 \<Rightarrow> 's \<Rightarrow> sensor_info \<times> 's" where
  "look_nothing \<equiv> \<lambda>h s. (default_sensor_info, s)"

definition dark_inputs :: "nat \<Rightarrow> als_env" where
  "dark_inputs n = \<lparr>als_now = int n, file_brightness = [], area = None\<rparr>"

definition origin_posted :: "(fl \<Rightarrow> fl \<Rightarrow> fl) \<Rightarrow> (nat \<Rightarrow> als_env)
    \<Rightarrow> (als_statics \<times> nat, sensor_info list) hal_proxy" where
  "origin_posted pow inputs =
     postEventsToMessageQueue example_consts (als_process_next pow inputs)
       \<lparr>post_now = 95, availableToWrite = 1, write_succeeds = True\<rparr>
       [tagged example_consts 1 (example_event 7)] 0 False origin_started"

definition origin_trace :: "(fl \<Rightarrow> fl \<Rightarrow> fl) \<Rightarrow> (nat \<Rightarrow> als_env) \<Rightarrow> post_label list" where
  "origin_trace pow inputs =
     [(Some (1, [example_event 7]),
       POST (posted_events (als_process_next pow inputs)
         (fst (fst (processEvents example_consts (of_nat 1) look_nothing [example_event 7] origin_started)))
         origin_started))]"

lemma no_wakeups: "flagged_wakeup K (\<lambda>h. default_sensor_info) e = False"
  by (simp add: flagged_wakeup_def default_sensor_info_def)

lemma origin_run:
  "post_run example_consts (als_process_next pow inputs) (\<lambda>_. True) look_nothing False
     origin_started (origin_trace pow inputs) (origin_posted pow inputs)"
  unfolding origin_trace_def
proof (rule run_one, rule post_step.sub_hal)
  show "postEvents example_consts (of_nat 1) (\<lambda>_. True) look_nothing
     (\<lambda>events n isLocked _. postEventsToMessageQueue example_consts (als_process_next pow inputs)
       \<lparr>post_now = 95, availableToWrite = 1, write_succeeds = True\<rparr> events n isLocked origin_started)
     False [example_event 7] False origin_started = Some (origin_posted pow inputs)"
    by (simp add: postEvents_def process_events_functional no_wakeups origin_posted_def)
qed (simp_all add: vector_ok_def)

lemma origin_hypotheses:
  "only_looks_up (look_nothing :: i32 \<Rightarrow> ('a, 'r) hal_proxy \<Rightarrow> _)" "clear_posts example_consts (origin_trace pow inputs)"
  "posted_by 1 (origin_trace pow inputs) = [example_event 7]"
proof -
  have "\<exists>m. s = s\<lparr>mSensors := m\<rparr>" for s :: "('a, 'r) hal_proxy"
    by (rule exI [of _ "mSensors s"]) simp
  then show "only_looks_up (look_nothing :: i32 \<Rightarrow> ('a, 'r) hal_proxy \<Rightarrow> _)"
    by (simp add: only_looks_up_def)
qed (simp_all add: origin_trace_def example_event_def)

text \<open>
  C2: the framework gets under the index of a sub-HAL what this sub-HAL posted.  From an
  initialisation on, with at most 128 sub-HALs that post through their own callbacks, under
  handles with a clear first byte, and everything else that the proxy does interleaved: leaving
  aside the light events that the correction has marked as dropped, the events the framework is
  given with the index of sub-HAL \<open>i\<close> are a selection of the events sub-HAL \<open>i\<close> posted, under
  its own handles and in its own order; none comes from another sub-HAL, none twice, and
  none overtakes another.  A dropped event counts for sub-HAL 0, whoever posted it, so for
  every other sub-HAL nothing has to be left aside.
\<close>

theorem framework_gets_what_sub_hal_posts:
  fixes s :: "(als_statics \<times> nat, 'r) hal_proxy"
  assumes "limit_ok K" and "mask_is_first_byte K" and "only_looks_up gsi"
    and "s = snd (initializeCommon K ops env q s0)"
    and "post_run K (als_process_next pow inputs) running gsi assertions s ls t"
    and "clear_posts K ls" and "i < 128"
  shows "\<exists>new. written (calls t) = written (calls s) @ new
     \<and> subseq (map (proxy_key K) (filter (\<lambda>e. from_sub_hal i e \<and> \<not> dropped_light e) new))
         (map own_key (posted_by i ls))
     \<and> (i \<noteq> 0 \<longrightarrow> filter (\<lambda>e. from_sub_hal i e \<and> \<not> dropped_light e) new = filter (from_sub_hal i) new)"
proof -
  let ?mine = "\<lambda>e. from_sub_hal i e \<and> \<not> dropped_light e"
  have others: "filter ?mine es = filter (from_sub_hal i) es" if "i \<noteq> 0" for es
    using that dropped_has_index_0 [OF _ assms(7)] by (intro filter_cong) auto
  obtain new where new: "written (calls t) = written (calls s) @ new"
    and sel: "subseq (new @ waiting_events t) (offered (map snd ls))"
    using fifo_run_order [OF post_run_line [OF assms(1,3,4,5)]] by auto
  have "subseq new (new @ waiting_events t)"
    by (rule list_emb_prefix) simp
  then have "subseq new (offered (map snd ls))"
    using sel by (rule subseq_order.order_trans)
  then have "subseq (map (proxy_key K) (filter ?mine new))
      (map (proxy_key K) (filter ?mine (offered (map snd ls))))"
    by (intro subseq_map subseq_filter)
  also have "subseq \<dots> (map own_key (posted_by i ls))"
    by (rule offered_of_sub_hal(1) [OF assms(2,7,6) post_run_labels [OF assms(5)]])
  finally show ?thesis using new others by blast
qed

theorem framework_gets_what_sub_hal_posts_witness:
  "\<exists>new. written (calls (origin_posted (\<lambda>x y. x) dark_inputs)) = written (calls origin_started) @ new
     \<and> subseq (map (proxy_key example_consts) (filter (from_sub_hal 1) new)) [(7, 100)]"
proof -
  let ?ls = "origin_trace (\<lambda>x y. x) dark_inputs"
  have keys: "map own_key (posted_by 1 ?ls) = [(7, 100)]"
    unfolding origin_hypotheses(3) by (simp add: own_key_def example_event_def)
  have "\<exists>new. written (calls (origin_posted (\<lambda>x y. x) dark_inputs)) = written (calls origin_started) @ new
     \<and> subseq (map (proxy_key example_consts) (filter (\<lambda>e. from_sub_hal 1 e \<and> \<not> dropped_light e) new))
         (map own_key (posted_by 1 ?ls))
     \<and> (1 \<noteq> (0 :: nat) \<longrightarrow> filter (\<lambda>e. from_sub_hal 1 e \<and> \<not> dropped_light e) new = filter (from_sub_hal 1) new)"
    by (rule framework_gets_what_sub_hal_posts [OF limit_ok_example mask_is_first_byte_example
        origin_hypotheses(1) origin_started_def origin_run origin_hypotheses(2)]) simp
  then obtain new where "written (calls (origin_posted (\<lambda>x y. x) dark_inputs)) = written (calls origin_started) @ new"
    and "subseq (map (proxy_key example_consts) (filter (\<lambda>e. from_sub_hal 1 e \<and> \<not> dropped_light e) new)) [(7, 100)]"
    and "filter (\<lambda>e. from_sub_hal 1 e \<and> \<not> dropped_light e) new = filter (from_sub_hal 1) new"
    unfolding keys using zero_neq_one by blast
  then show ?thesis by (intro exI [of _ new]) (simp only: simp_thms)
qed

text \<open>
  C4: and all of it, unless there is a cause.  If, in such a run, no more events are posted than may be
  pending, no write of the pending writes thread fails and the proxy is not initialised again,
  then for every sub-HAL the events other than light readings that the framework was given or
  that still wait to be written are exactly those the sub-HAL posted.
\<close>

theorem framework_gets_all_sub_hal_posts:
  fixes s :: "(als_statics \<times> nat, 'r) hal_proxy"
  assumes "limit_ok K" and "mask_is_first_byte K" and "only_looks_up gsi"
    and "s = snd (initializeCommon K ops env q s0)"
    and "post_run K (als_process_next pow inputs) running gsi assertions s ls t"
    and "clear_posts K ls" and "i < 128"
    and "length (offered (map snd ls)) \<le> unat (kMaxSizePendingWriteEventsQueue K)"
    and "WRITE False \<notin> snd ` set ls" and "RESTART \<notin> snd ` set ls"
  shows "\<exists>new. written (calls t) = written (calls s) @ new
     \<and> map (proxy_key K) (filter (\<lambda>e. from_sub_hal i e \<and> sensorType e \<noteq> SENSOR_TYPE_QTI_WISE_LIGHT)
           (new @ waiting_events t))
       = map own_key (filter (\<lambda>e. sensorType e \<noteq> SENSOR_TYPE_QTI_WISE_LIGHT) (posted_by i ls))"
proof -
  note line = post_run_line [OF assms(1,3,4,5)]
  obtain new where new: "written (calls t) = written (calls s) @ new"
    using fifo_run_order [OF line] by auto
  moreover have "written (calls t) @ waiting_events t = written (calls s) @ offered (map snd ls)"
    using fifo_run_lossless [OF line] assms(8-10) by simp
  ultimately have "new @ waiting_events t = offered (map snd ls)" by simp
  then show ?thesis
    unfolding offered_of_sub_hal(2) [OF assms(2,7,6) post_run_labels [OF assms(5)], symmetric]
    using new by (intro exI [of _ new]) simp
qed

theorem framework_gets_all_sub_hal_posts_witness:
  "\<exists>new. written (calls (origin_posted (\<lambda>x y. x) dark_inputs)) = written (calls origin_started) @ new
     \<and> map (proxy_key example_consts)
         (filter (\<lambda>e. from_sub_hal 1 e \<and> sensorType e \<noteq> SENSOR_TYPE_QTI_WISE_LIGHT)
           (new @ waiting_events (origin_posted (\<lambda>x y. x) dark_inputs)))
       = [(7, 100)]"
proof -
  let ?ls = "origin_trace (\<lambda>x y. x) dark_inputs"
  have "map own_key (filter (\<lambda>e. sensorType e \<noteq> SENSOR_TYPE_QTI_WISE_LIGHT) (posted_by 1 ?ls)) = [(7, 100)]"
    unfolding origin_hypotheses(3)
    by (simp add: own_key_def example_event_def SENSOR_TYPE_QTI_WISE_LIGHT_def)
  moreover have "length (offered (map snd ?ls)) \<le> unat (kMaxSizePendingWriteEventsQueue example_consts)"
    by (simp add: origin_trace_def posted_events_def process_events example_consts_def
        del: correct_events.simps)
  ultimately show ?thesis
    using framework_gets_all_sub_hal_posts [OF limit_ok_example mask_is_first_byte_example
        origin_hypotheses(1) origin_started_def origin_run origin_hypotheses(2), of 1 "\<lambda>x y. x" dark_inputs]
    by (simp add: origin_trace_def)
qed

end
