(* ===== verification/Wakelock_Ledger.thy ===== *)
theory Wakelock_Ledger
  imports Event_Origin "HOL-Library.Multiset"
begin

text \<open>
  Who keeps the device awake.  Beside the running proxy a ledger is kept of the wake-up events
  that were posted and not acknowledged and of the scoped wake locks that are alive.  The
  reference count of the proxy is at every moment what the ledger says, and so the kernel wake
  lock is held exactly while somebody needs it, as long as the framework acknowledges no more
  than it was given and the proxy is neither stopped nor initialised again.
\<close>

subsection \<open>The ledger\<close>

text \<open>
  The wake-up events the proxy still owes, those that are acknowledged or written off, the
  times of the scoped wake locks that are alive, and the last time somebody read the clock.
\<close>

record ledger =
  owed :: nat
  settled :: nat
  held :: "int multiset"
  clock :: int

text \<open>A step is as in \<open>hal_step\<close>, but a turn of the wake lock thread that times out is told apart.\<close>

datatype lock_label = STEP "event label" | TIMEOUT

fun plain_label :: "lock_label \<Rightarrow> event label" where
  "plain_label (STEP l) = l"
| "plain_label TIMEOUT = TAU"

text \<open>What concerns the wake lock.\<close>

definition lock_part :: "'a wakelock_state_scheme \<Rightarrow> bool \<times> size_t \<times> int \<times> int \<times> bool" where
  "lock_part s = (mThreadsRun s, mWakelockRefCount s, mWakelockTimeoutStartTime s,
     mWakelockTimeoutResetTime s, wakelock_held (calls s))"

text \<open>What the framework was given and what waits for it.\<close>

definition posted_so_far :: "('a, 'r) hal_proxy \<Rightarrow> event list" where
  "posted_so_far s = written (calls s) @ waiting_events s"

definition wakeups :: "(event \<Rightarrow> bool) \<Rightarrow> event list \<Rightarrow> nat" where
  "wakeups W es = length (filter W es)"

text \<open>
  The steps, for the events \<open>W\<close> that are to keep the device awake.  Whoever posts holds the
  scoped wake lock that the assertion of \<open>postEvents\<close> asks for, and counts at least the
  events in \<open>W\<close>.  A scoped wake lock counts one, and is given up once, with the time it got.
  The framework acknowledges no more of the events than it was given and has not yet
  acknowledged.  A timeout writes everything off.  All times are from one clock, and what is
  counted fits a \<open>size_t\<close>.  Other steps of the proxy leave the wake lock alone.
\<close>

inductive ledger_step :: "hal_consts \<Rightarrow> (event \<Rightarrow> 'a \<Rightarrow> event \<times> 'a) \<Rightarrow> (event \<Rightarrow> bool)
    \<Rightarrow> ('a, 'r) hal_proxy \<times> ledger \<Rightarrow> lock_label \<Rightarrow> ('a, 'r) hal_proxy \<times> ledger \<Rightarrow> bool"
  for K process W where
  post: "vector_ok es \<Longrightarrow> lock_matches n locked \<Longrightarrow>
     wakeups W (posted_events process es s) \<le> unat n \<Longrightarrow>
     owed L + size (held L) + unat n < 2 ^ 64 \<Longrightarrow> clock L \<le> post_now env \<Longrightarrow>
     ledger_step K process W (s, L) (STEP (POST (posted_events process es s)))
       (postEventsToMessageQueue K process env es n locked s,
        L\<lparr>owed := owed L + unat n, clock := post_now env\<rparr>)"
| acquire: "incrementRefCountAndMaybeAcquireWakelock 1 now s = (Some start, t) \<Longrightarrow>
     owed L + size (held L) + 1 < 2 ^ 64 \<Longrightarrow> clock L \<le> now \<Longrightarrow>
     ledger_step K process W (s, L) (STEP TAU)
       (t, L\<lparr>held := add_mset start (held L), clock := now\<rparr>)"
| release: "start \<in># held L \<Longrightarrow>
     ledger_step K process W (s, L) (STEP TAU)
       (decrementRefCountAndMaybeReleaseWakelock 1 start s, L\<lparr>held := held L - {#start#}\<rparr>)"
| acknowledge: "mWakelockThread s = Some (WL_READING timeLeft) \<Longrightarrow>
     settled L + unat n \<le> wakeups W (written (calls s)) \<Longrightarrow>
     ledger_step K process W (s, L) (STEP TAU)
       ((handleWakelocks_read (Some n) s)\<lparr>mWakelockThread := Some WL_WAITING\<rparr>,
        L\<lparr>owed := owed L - unat n, settled := settled L + unat n\<rparr>)"
| timeout: "mWakelockThread s = Some WL_WAITING \<Longrightarrow> wakelock_wait_ready s \<Longrightarrow>
     sharedWakelockDidTimeout K now s = None \<Longrightarrow> handleWakelocks_check K now now' s = (t, pc) \<Longrightarrow>
     clock L \<le> now \<Longrightarrow> now \<le> now' \<Longrightarrow>
     ledger_step K process W (s, L) TIMEOUT
       (t\<lparr>mWakelockThread := Some pc\<rparr>,
        L\<lparr>owed := 0, settled := wakeups W (posted_so_far s), clock := now'\<rparr>)"
| other: "hal_step K process s l t \<Longrightarrow> (\<And>es. l \<noteq> POST es) \<Longrightarrow> l \<noteq> RESTART \<Longrightarrow>
     lock_part t = lock_part s \<Longrightarrow>
     ledger_step K process W (s, L) (STEP l) (t, L)"

abbreviation ledger_run where
  "ledger_run K process W \<equiv> run (ledger_step K process W)"

lemma ledger_step_hal:
  assumes "ledger_step K process W x l y"
  shows "hal_step K process (fst x) (plain_label l) (fst y)"
  using assms
proof (cases rule: ledger_step.cases)
  case (post es n locked s L env)
  then show ?thesis by (simp add: hal_step.post)
next
  case (acquire now s start t L)
  then show ?thesis using hal_step.lock [of K process s 1 now] by simp
next
  case (release start L s)
  then show ?thesis by (simp add: hal_step.unlock)
next
  case (acknowledge s timeLeft L n)
  then show ?thesis by (simp add: hal_step.read)
next
  case (timeout s now now' t pc L)
  then show ?thesis by (simp add: hal_step.check)
next
  case (other s l t L)
  then show ?thesis by simp
qed

text \<open>So a run with a ledger is a run of the proxy.\<close>

lemma ledger_run_hal: "ledger_run K process W x ls y \<Longrightarrow> hal_run K process (fst x) (map plain_label ls) (fst y)"
  by (induction rule: run.induct) (auto intro: run.intros ledger_step_hal)

subsection \<open>The books are right\<close>

text \<open>The scoped wake locks that were not cut off by a timeout.\<close>

definition fresh_locks :: "('a, 'r) hal_proxy \<Rightarrow> ledger \<Rightarrow> nat" where
  "fresh_locks s L = size (filter_mset (\<lambda>start. mWakelockTimeoutResetTime s \<le> start) (held L))"

text \<open>The count is what the ledger says, and no time is from the future.\<close>

definition lock_books :: "('a, 'r) hal_proxy \<Rightarrow> ledger \<Rightarrow> bool" where
  "lock_books s L \<longleftrightarrow> mThreadsRun s
     \<and> unat (mWakelockRefCount s) = owed L + fresh_locks s L
     \<and> lock_exact s
     \<and> (\<forall>start\<in>#held L. 0 \<le> start \<and> start \<le> mWakelockTimeoutStartTime s)
     \<and> 0 \<le> clock L \<and> mWakelockTimeoutStartTime s \<le> clock L \<and> mWakelockTimeoutResetTime s \<le> clock L"

lemma wakeups_append [simp]: "wakeups W (xs @ ys) = wakeups W xs + wakeups W ys"
  by (simp add: wakeups_def)

lemma wakeups_Nil [simp]: "wakeups W [] = 0"
  by (simp add: wakeups_def)

lemma wakeups_subseq: "subseq xs ys \<Longrightarrow> wakeups W xs \<le> wakeups W ys"
  unfolding wakeups_def using subseq_filter [of xs ys W] list_emb_length by blast

lemma wakeups_step:
  assumes "queue_inv K s" and "hal_step K process s l t"
  shows "wakeups W (posted_so_far t) \<le> wakeups W (posted_so_far s) + wakeups W (offered_by l)"
proof -
  obtain new where new: "written (calls t) = written (calls s) @ new"
    "subseq (new @ waiting_events t) (waiting_events s @ offered_by l)"
    using fifo_step_order [OF step_simulates [OF assms]] by (auto simp: fifo_view_def)
  from wakeups_subseq [OF new(2), of W] show ?thesis
    by (simp add: posted_so_far_def new(1))
qed

lemma wakeups_written: "queue_inv K s \<Longrightarrow> hal_step K process s l t
    \<Longrightarrow> wakeups W (written (calls s)) \<le> wakeups W (written (calls t))"
  using fifo_step_order [OF step_simulates, of K s process l t] by (auto simp: fifo_view_def)

lemma lock_part_post:
  "lock_part (postEventsToMessageQueue K process env es n locked s)
   = lock_part (if locked then snd (incrementRefCountAndMaybeAcquireWakelock n (post_now env) s) else s)"
  by (simp add: lock_part_def post_unfold(1) keep_pending_def write_now_def wakelock_held_def Let_def)

lemma lock_part_thread [simp]: "lock_part (s\<lparr>mWakelockThread := pc\<rparr>) = lock_part s"
  by (simp add: lock_part_def)

lemma lock_part_fields:
  assumes "lock_part t = lock_part s"
  shows "mThreadsRun t = mThreadsRun s" "mWakelockRefCount t = mWakelockRefCount s"
    "mWakelockTimeoutStartTime t = mWakelockTimeoutStartTime s"
    "mWakelockTimeoutResetTime t = mWakelockTimeoutResetTime s"
    "lock_exact t = lock_exact s" "fresh_locks t L = fresh_locks s L"
  using assms by (simp_all add: lock_part_def lock_exact_def fresh_locks_def)

lemma lock_books_cong: "lock_part t = lock_part s \<Longrightarrow> lock_books t L = lock_books s L"
  by (simp add: lock_books_def lock_part_fields [of t s])

lemma fresh_locks_le: "fresh_locks s L \<le> size (held L)"
  by (simp add: fresh_locks_def size_filter_mset_lesseq)

text \<open>What each operation does to the books.\<close>

lemma increment_books:
  assumes books: "lock_books s L" and d: "0 < d" and now: "clock L \<le> now"
    and room: "owed L + size (held L) + unat d < 2 ^ 64"
  defines "t \<equiv> snd (incrementRefCountAndMaybeAcquireWakelock d now s)"
  shows "mThreadsRun t" and "lock_exact t" and "mWakelockTimeoutStartTime t = now"
    and "mWakelockTimeoutResetTime t = mWakelockTimeoutResetTime s"
    and "unat (mWakelockRefCount t) = owed L + fresh_locks s L + unat d"
proof -
  have run: "mThreadsRun s" and count: "unat (mWakelockRefCount s) = owed L + fresh_locks s L"
    and exact: "lock_exact s"
    using books by (simp_all add: lock_books_def)
  have fits: "unat (mWakelockRefCount s) + unat d < 2 ^ 64"
    using room fresh_locks_le [of s L] by (simp add: count)
  show "mThreadsRun t" "mWakelockTimeoutStartTime t = now"
    "mWakelockTimeoutResetTime t = mWakelockTimeoutResetTime s"
    using run by (simp_all add: t_def wakelock_defs)
  show "lock_exact t"
    unfolding t_def by (rule lock_exact_increment [OF exact d fits])
  show "unat (mWakelockRefCount t) = owed L + fresh_locks s L + unat d"
  proof -
    have "mWakelockRefCount t = mWakelockRefCount s + d"
      using run by (simp add: t_def wakelock_defs)
    then show ?thesis using unat_add_small [OF fits] by (simp only: count)
  qed
qed

lemma post_books:
  assumes books: "lock_books s L" and "lock_matches n locked" and now: "clock L \<le> post_now env"
    and room: "owed L + size (held L) + unat n < 2 ^ 64"
  shows "lock_books (postEventsToMessageQueue K process env es n locked s)
           (L\<lparr>owed := owed L + unat n, clock := post_now env\<rparr>)"
proof (cases locked)
  case True
  with assms(2) have n: "0 < n" by (auto simp: lock_matches_def split: if_splits)
  let ?t = "snd (incrementRefCountAndMaybeAcquireWakelock n (post_now env) s)"
  note inc = increment_books [OF books n now room]
  have "lock_books ?t (L\<lparr>owed := owed L + unat n, clock := post_now env\<rparr>)"
    using books now inc by (fastforce simp: lock_books_def fresh_locks_def)
  with True show ?thesis by (subst lock_books_cong [OF lock_part_post]) simp
next
  case False
  with assms(2) have "n = 0" by (auto simp: lock_matches_def word_gt_0 split: if_splits)
  then have "lock_books s (L\<lparr>owed := owed L + unat n, clock := post_now env\<rparr>)"
    using books now by (simp add: lock_books_def fresh_locks_def)
  with False show ?thesis by (subst lock_books_cong [OF lock_part_post]) simp
qed

lemma acquire_books:
  assumes books: "lock_books s L" and now: "clock L \<le> now"
    and room: "owed L + size (held L) + 1 < 2 ^ 64"
    and inc: "incrementRefCountAndMaybeAcquireWakelock 1 now s = (Some start, t)"
  shows "lock_books t (L\<lparr>held := add_mset start (held L), clock := now\<rparr>)"
proof -
  have "owed L + size (held L) + unat (1 :: size_t) < 2 ^ 64" using room by simp
  note step = increment_books [OF books _ now this]
  have "start = now" and t: "t = snd (incrementRefCountAndMaybeAcquireWakelock 1 now s)"
    using inc by (auto simp: wakelock_defs split: if_splits)
  moreover have "mWakelockTimeoutResetTime s \<le> now" "0 \<le> now" using books now by (auto simp: lock_books_def)
  ultimately show ?thesis
    using books now step by (fastforce simp: lock_books_def fresh_locks_def)
qed

lemma decrement_books:
  assumes "mThreadsRun s" and "lock_exact s" and "unat d \<le> unat (mWakelockRefCount s)"
    and "fresh_since_reset s start"
  defines "t \<equiv> decrementRefCountAndMaybeReleaseWakelock d start s"
  shows "lock_exact t" and "unat (mWakelockRefCount t) = unat (mWakelockRefCount s) - unat d"
proof -
  show "lock_exact t" unfolding t_def by (rule lock_exact_decrement [OF assms(2)])
  have "d \<le> mWakelockRefCount s" using assms(3) by (simp add: word_le_nat_alt)
  then have "mWakelockRefCount t = mWakelockRefCount s - d"
    using count_decrement [OF assms(1,4), of d] by (simp add: t_def min.absorb2)
  then show "unat (mWakelockRefCount t) = unat (mWakelockRefCount s) - unat d"
    using unat_sub_small [OF assms(3)] by simp
qed

lemma release_books:
  assumes books: "lock_books s L" and start: "start \<in># held L"
  shows "lock_books (decrementRefCountAndMaybeReleaseWakelock 1 start s) (L\<lparr>held := held L - {#start#}\<rparr>)"
proof -
  let ?fresh = "\<lambda>start. mWakelockTimeoutResetTime s \<le> start"
  let ?t = "decrementRefCountAndMaybeReleaseWakelock 1 start s"
  have run: "mThreadsRun s" and exact: "lock_exact s" and pos: "0 \<le> start"
    and count: "unat (mWakelockRefCount s) = owed L + fresh_locks s L"
    using books start by (auto simp: lock_books_def)
  have rest: "\<forall>x\<in>#held L - {#start#}. 0 \<le> x \<and> x \<le> mWakelockTimeoutStartTime s"
    using books by (auto simp: lock_books_def dest: in_diffD)
  obtain M where M: "held L = add_mset start M" using multi_member_split [OF start] by blast
  have "lock_exact ?t \<and> unat (mWakelockRefCount ?t)
      = owed L + size (filter_mset ?fresh (held L - {#start#}))"
  proof (cases "?fresh start")
    case True
    then have "unat (1 :: size_t) \<le> unat (mWakelockRefCount s)"
      by (simp add: count fresh_locks_def M)
    from decrement_books [OF run exact this, of start] True show ?thesis
      by (simp add: fresh_since_reset_def count fresh_locks_def M)
  next
    case False
    then have "?t = s" using run pos by (intro wakelock.dec_stale) (auto simp: fresh_since_reset_def)
    with False exact count show ?thesis by (simp add: fresh_locks_def M)
  qed
  then show ?thesis
    using books rest by (simp add: lock_books_def fresh_locks_def)
qed

lemma unat_ucast_32: "unat (ucast (n :: u32) :: size_t) = unat n"
proof -
  have "unat n < 2 ^ 32" using unsigned_less [of n] by simp
  then have "unat n < 2 ^ 64" by simp
  then show ?thesis by (simp add: unsigned_ucast_eq take_bit_nat_eq_self)
qed

lemma acknowledge_books:
  assumes books: "lock_books s L" and "unat n \<le> owed L"
  shows "lock_books ((handleWakelocks_read (Some n) s)\<lparr>mWakelockThread := pc\<rparr>)
           (L\<lparr>owed := owed L - unat n, settled := m\<rparr>)"
proof -
  note n = unat_ucast_32 [of n]
  have run: "mThreadsRun s" and exact: "lock_exact s"
    and count: "unat (mWakelockRefCount s) = owed L + fresh_locks s L"
    using books by (auto simp: lock_books_def)
  have "unat (ucast n :: size_t) \<le> unat (mWakelockRefCount s)"
    using assms(2) by (simp add: count n)
  note dec = decrement_books [OF run exact this, of "- 1"]
  have "lock_books (handleWakelocks_read (Some n) s) (L\<lparr>owed := owed L - unat n, settled := m\<rparr>)"
    using books dec assms(2)
    by (simp add: lock_books_def fresh_locks_def handleWakelocks_read_def fresh_since_reset_def n)
  then show ?thesis by (subst lock_books_cong [OF lock_part_thread])
qed

lemma timeout_books:
  assumes books: "lock_books s L" and "wakelock_wait_ready s" and K: "0 \<le> kWakelockTimeoutNs K"
    and late: "sharedWakelockDidTimeout K now s = None"
    and check: "handleWakelocks_check K now now' s = (t, pc)" and "now \<le> now'" "clock L \<le> now"
  shows "lock_books (t\<lparr>mWakelockThread := pc'\<rparr>) (L\<lparr>owed := 0, settled := m, clock := now'\<rparr>)"
proof -
  have run: "mThreadsRun s" and exact: "lock_exact s"
    and times: "\<forall>start\<in>#held L. 0 \<le> start \<and> start \<le> mWakelockTimeoutStartTime s" "0 \<le> clock L"
    using books by (auto simp: lock_books_def)
  have t: "t = resetSharedWakelock now' s"
    using check late run by (simp add: handleWakelocks_check_def)
  have start: "mWakelockTimeoutStartTime s < now'"
    using late K assms(6) by (auto simp: sharedWakelockDidTimeout_def Let_def split: if_splits)
  then have "\<forall>x\<in>#held L. \<not> now' \<le> x" using times(1) by fastforce
  then have "filter_mset (\<lambda>x. now' \<le> x) (held L) = {#}" by simp
  moreover have "mWakelockRefCount t = 0" "mThreadsRun t" "mWakelockTimeoutResetTime t = now'"
    "mWakelockTimeoutStartTime t = mWakelockTimeoutStartTime s"
    using run by (simp_all add: t wakelock_defs)
  moreover have "lock_exact t" unfolding t by (rule lock_exact_reset [OF exact])
  ultimately have "lock_books t (L\<lparr>owed := 0, settled := m, clock := now'\<rparr>)"
    using times start assms(6,7) by (simp add: lock_books_def fresh_locks_def)
  then show ?thesis by (subst lock_books_cong [OF lock_part_thread])
qed

text \<open>Nothing that has to be accounted for is missing.\<close>

definition books_right :: "hal_consts \<Rightarrow> (event \<Rightarrow> bool) \<Rightarrow> ('a, 'r) hal_proxy \<times> ledger \<Rightarrow> bool" where
  "books_right K W x \<longleftrightarrow> queue_inv K (fst x) \<and> lock_books (fst x) (snd x)
     \<and> wakeups W (posted_so_far (fst x)) \<le> owed (snd x) + settled (snd x)"

lemma step_books:
  assumes K: "0 \<le> kWakelockTimeoutNs K" and "books_right K W x" and "ledger_step K process W x l y"
  shows "books_right K W y"
proof -
  have inv: "queue_inv K (fst x)" and books: "lock_books (fst x) (snd x)"
    and all: "wakeups W (posted_so_far (fst x)) \<le> owed (snd x) + settled (snd x)"
    using assms(2) by (simp_all add: books_right_def)
  have hal: "hal_step K process (fst x) (plain_label l) (fst y)"
    by (rule ledger_step_hal [OF assms(3)])
  have grow: "wakeups W (posted_so_far (fst y)) \<le> wakeups W (posted_so_far (fst x))
      + wakeups W (offered_by (plain_label l))"
    by (rule wakeups_step [OF inv hal])
  have "lock_books (fst y) (snd y)
    \<and> wakeups W (posted_so_far (fst y)) \<le> owed (snd y) + settled (snd y)"
    using assms(3)
  proof (cases rule: ledger_step.cases)
    case (post es n locked s L env)
    have "lock_books (fst y) (snd y)"
      using books post by (simp add: post_books)
    with post grow all show ?thesis by simp
  next
    case (acquire now s start t L)
    have "lock_books (fst y) (snd y)"
      using books acquire by (simp add: acquire_books)
    with acquire grow all show ?thesis by simp
  next
    case (release start L s)
    have "lock_books (fst y) (snd y)"
      using books release by (simp add: release_books)
    with release grow all show ?thesis by simp
  next
    case (acknowledge s timeLeft L n)
    then have "unat n \<le> owed L" using all by (simp add: posted_so_far_def)
    moreover from this have "lock_books (fst y) (snd y)"
      using books acknowledge by (simp add: acknowledge_books)
    ultimately show ?thesis using acknowledge grow all by simp
  next
    case (timeout s now now' t pc L)
    have "lock_books (fst y) (snd y)"
      using books timeout K by (simp add: timeout_books)
    with timeout grow show ?thesis by simp
  next
    case (other s l t L)
    have "lock_books (fst y) (snd y)"
      using books lock_books_cong [OF other(7)] unfolding other(1,3) by simp
    moreover have "offered_by l = []"
    proof (cases l)
      case (POST es)
      with other(5) show ?thesis by blast
    qed simp_all
    ultimately show ?thesis using other(1-3) grow all by simp
  qed
  with step_invariants [OF inv hal] show ?thesis by (simp add: books_right_def)
qed

text \<open>So they stay right in every run.\<close>

lemma run_books:
  assumes "0 \<le> kWakelockTimeoutNs K" and "ledger_run K process W x ls y" and "books_right K W x"
  shows "books_right K W y"
  using assms(2,3) by (rule run_invariant) (rule step_books [OF assms(1)])

text \<open>Without a timeout nothing is written off.\<close>

lemma run_settled:
  assumes K: "0 \<le> kWakelockTimeoutNs K" and "ledger_run K process W x ls y" and "books_right K W x"
    and "TIMEOUT \<notin> set ls" and "settled (snd x) \<le> wakeups W (written (calls (fst x)))"
  shows "settled (snd y) \<le> wakeups W (written (calls (fst y)))"
  using assms(2-5)
proof (induction rule: run.induct)
  case (some x ls y l z)
  have inv: "queue_inv K (fst y)"
    using run_books [OF K some.hyps(1) some.prems(1)] by (simp add: books_right_def)
  have grow: "wakeups W (written (calls (fst y))) \<le> wakeups W (written (calls (fst z)))"
    by (rule wakeups_written [OF inv ledger_step_hal [OF some.hyps(2)]])
  have "settled (snd y) \<le> wakeups W (written (calls (fst y)))"
    using some.prems by (intro some.IH) simp_all
  with grow have le: "settled (snd y) \<le> wakeups W (written (calls (fst z)))" by simp
  have "l \<noteq> TIMEOUT" using some.prems(2) by auto
  with some.hyps(2) show ?case
  proof (cases rule: ledger_step.cases)
    case (acknowledge s timeLeft L n)
    with grow show ?thesis by simp
  qed (use le in simp_all)
qed

text \<open>The books at an initialisation.\<close>

definition new_ledger :: "(event \<Rightarrow> bool) \<Rightarrow> ('a, 'r) hal_proxy \<Rightarrow> int \<Rightarrow> ledger" where
  "new_ledger W s now = \<lparr>owed = 0, settled = wakeups W (written (calls s)), held = {#}, clock = now\<rparr>"

definition clock_reads :: "int \<Rightarrow> ('a, 'r) hal_proxy \<Rightarrow> bool" where
  "clock_reads now s \<longleftrightarrow> 0 \<le> now \<and> mWakelockTimeoutStartTime s \<le> now \<and> mWakelockTimeoutResetTime s \<le> now"

lemma initialized_runs: "mThreadsRun (snd (initializeCommon K ops env q s))"
  using initialized_state [of K ops env q s] by (auto simp: restarted_def)

lemma initialized_books:
  assumes "limit_ok K" and "mWakelockRefCount s0 = 0" and "\<not> wakelock_held (calls s0)"
    and s: "s = snd (initializeCommon K ops env q s0)" and "clock_reads now s"
  shows "books_right K W (s, new_ledger W s now)"
proof -
  have "waiting_events s = []"
    using initialized_start(3) [of K ops env q s0] by (simp add: s waiting_events_def)
  moreover have "lock_books s (new_ledger W s now)"
    using assms(2,3,5) initialized_runs [of K ops env q s0]
    by (simp add: lock_books_def new_ledger_def fresh_locks_def lock_exact_def clock_reads_def s
        initialized_lock)
  ultimately show ?thesis
    using initialized_queue_inv(1) [OF assms(1) s]
    by (simp add: books_right_def posted_so_far_def new_ledger_def)
qed

text \<open>
  What the steps ask of posting, that the events in \<open>W\<close> are counted, is what a callback
  does for the wake-up events that are not light readings, if \<open>getSensorInfo\<close> reads a table.
\<close>

lemma corrected_wakeups:
  assumes "\<And>e w. sensorType (fst (process e w)) = sensorType e"
    and "\<And>e. sensorType e = SENSOR_TYPE_QTI_WISE_LIGHT \<Longrightarrow> \<not> W e"
  shows "wakeups W (fst (correct_events process es w)) = wakeups W es"
  using assms by (induction es arbitrary: w) (simp_all add: Let_def case_prod_unfold wakeups_def)

lemma callback_counts_wakeups:
  assumes "vector_ok es" and "\<And>e w. sensorType (fst (process e w)) = sensorType e"
    and "processEvents K i (\<lambda>h u. (info h, u)) es u = ((processed, n), u')"
  shows "wakeups (\<lambda>e. sensorType e \<noteq> SENSOR_TYPE_QTI_WISE_LIGHT \<and> flagged_wakeup K info e)
      (posted_events process processed s) \<le> unat n"
proof -
  let ?flagged = "filter (flagged_wakeup K info) processed"
  have n: "n = of_nat (length ?flagged)" and p: "processed = map (tagged K i) es"
    using assms(3) process_loop_reading [of K i "\<lambda>_. info" 0 es u] by (auto simp: processEvents_def)
  have "length ?flagged \<le> length es" by (simp add: p order_trans [OF length_filter_le])
  then have "length ?flagged < 2 ^ 64" using assms(1) by (simp add: vector_ok_def)
  then have "unat n = length ?flagged" by (simp add: n unsigned_of_nat take_bit_nat_eq_self)
  moreover have "wakeups (\<lambda>e. sensorType e \<noteq> SENSOR_TYPE_QTI_WISE_LIGHT \<and> flagged_wakeup K info e) processed
      \<le> length ?flagged"
    by (induction processed) (simp_all add: wakeups_def)
  ultimately show ?thesis
    unfolding posted_events_def by (subst corrected_wakeups) (simp_all add: assms(2))
qed

text \<open>
  The steps of a ledger cover those of the proxy: a step that is no posting, no failing write,
  no initialisation and no stop leaves the wake lock alone, or raises or lowers the count, or
  reads an acknowledgement, or is a timeout.
\<close>

lemma lock_part_others:
  "lock_part (s\<lparr>mPendingWritesThread := p\<rparr>) = lock_part s"
  "lock_part (onDynamicSensorsConnected K xs i s) = lock_part s"
  "lock_part (onDynamicSensorsDisconnected K hs i s) = lock_part s"
  "lock_part (snd (setOperationMode ops m s)) = lock_part s"
  "lock_part (snd (call_sub_hal j f s)) = lock_part s"
  "lock_part (s\<lparr>mCurrentOperationMode := m\<rparr>) = lock_part s"
  "lock_part (snd (registerDirectChannel ops mem s)) = lock_part s"
  "lock_part (snd (unregisterDirectChannel ops ch s)) = lock_part s"
  "lock_part (snd (configDirectReport K ops h ch rate s)) = lock_part s"
  "lock_part (handlePendingWrites_erase q n s) = lock_part s"
  "lock_part (handlePendingWrites_written K q n w True s) = lock_part s"
  by (simp_all add: lock_part_def onDynamicSensorsConnected_def onDynamicSensorsDisconnected_def
      setOperationMode_def registerDirectChannel_def unregisterDirectChannel_def
      configDirectReport_def call_sub_hal_def handlePendingWrites_erase_def
      handlePendingWrites_written_def emit_def wakelock_held_def Let_def case_prod_unfold
      split: option.split list.split)

lemma lock_part_sub_hals: "lock_part (s\<lparr>mSubHalList := hals\<rparr>) = lock_part s"
  by (simp add: lock_part_def)

lemma lock_part_call: "lock_part (snd (proxy_call K ops conv c s)) = lock_part s"
  by (subst proxy_call_frame(1)) (rule lock_part_sub_hals)

lemma lock_part_debug: "lock_part (snd (debug D now fd args s)) = lock_part s"
  using debug_frame [of D now fd args s] lock_part_sub_hals by metis

lemma hal_step_lock:
  assumes "hal_step K process s l t" and "\<And>es. l \<noteq> POST es" and "l \<noteq> WRITE False" and "l \<noteq> RESTART"
    and "mThreadsRun s" and "mThreadsRun t"
  obtains (other) "lock_part t = lock_part s"
  | (up) d now where "t = snd (incrementRefCountAndMaybeAcquireWakelock d now s)"
  | (down) d start where "t = decrementRefCountAndMaybeReleaseWakelock d start s"
  | (ack) r where "t = (handleWakelocks_read r s)\<lparr>mWakelockThread := Some WL_WAITING\<rparr>"
  | (reset) now now' pc where "t = (resetSharedWakelock now' s)\<lparr>mWakelockThread := Some pc\<rparr>"
      "sharedWakelockDidTimeout K now s = None"
  using assms(1)
proof (cases rule: hal_step.cases)
  case (written q n w ok)
  with assms(3) have "ok" by (cases ok) simp_all
  with written show thesis by (intro other) (simp add: lock_part_others)
next
  case (check now now' u pc)
  show thesis
  proof (cases "sharedWakelockDidTimeout K now s")
    case None
    with check assms(5) show thesis by (intro reset) (auto simp: handleWakelocks_check_def)
  next
    case (Some timeLeft)
    with check assms(5) show thesis by (intro other) (auto simp: handleWakelocks_check_def)
  qed
next
  case take
  then show thesis by (intro other) (simp add: lock_part_others)
next
  case erase
  then show thesis by (intro other) (simp add: lock_part_others)
next
  case connected
  then show thesis by (intro other) (simp add: lock_part_others)
next
  case disconnected
  then show thesis by (intro other) (simp add: lock_part_others)
next
  case "call"
  then show thesis by (intro other) (simp add: lock_part_call)
next
  case mode
  then show thesis by (intro other) (simp add: lock_part_others)
next
  case channel
  then show thesis by (intro other) (simp add: lock_part_others)
next
  case no_channel
  then show thesis by (intro other) (simp add: lock_part_others)
next
  case report
  then show thesis by (intro other) (simp add: lock_part_others)
next
  case dump
  then show thesis by (intro other) (simp add: lock_part_debug)
next
  case (init_sub_hal i ops)
  then show thesis by (intro other) (simp add: lock_part_others)
next
  case init_mode
  then show thesis by (intro other) (simp add: lock_part_others)
next
  case lock
  then show thesis by (intro up)
next
  case unlock
  then show thesis by (intro down)
next
  case read
  then show thesis by (intro ack)
qed (use assms(2,4,6) in simp_all)

subsection \<open>Late acknowledgements\<close>

text \<open>
  Why the steps ask that nothing from before a timeout is acknowledged: \<open>handleWakelocks\<close> takes
  acknowledgements back without a time, so after a timeout the acknowledgement of an event from
  before gives the lock back that a newer event, not yet acknowledged, is holding.
\<close>

lemma late_acknowledgement_releases:
  fixes s :: "'a wakelock_state_scheme" and now now' d
  defines "t \<equiv> snd (incrementRefCountAndMaybeAcquireWakelock d now' (resetSharedWakelock now s))"
  assumes "mThreadsRun s" and "0 < d" and "unat d \<le> unat n"
  shows "mWakelockRefCount t = d \<and> wakelock_held (calls t)"
    and "mWakelockRefCount (handleWakelocks_read (Some n) t) = 0"
    and "\<not> wakelock_held (calls (handleWakelocks_read (Some n) t))"
proof -
  have "mWakelockRefCount (resetSharedWakelock now s) = 0" "mThreadsRun (resetSharedWakelock now s)"
    using assms(2) by (simp_all add: wakelock_defs)
  then have t: "mWakelockRefCount t = d" "mThreadsRun t" "wakelock_held (calls t)"
    by (simp_all add: t_def incrementRefCountAndMaybeAcquireWakelock_def Let_def wakelock_held_def)
  then show "mWakelockRefCount t = d \<and> wakelock_held (calls t)" by simp
  have "d \<le> ucast n" using assms(4) by (simp add: word_le_nat_alt unat_ucast_32)
  then show "mWakelockRefCount (handleWakelocks_read (Some n) t) = 0"
    "\<not> wakelock_held (calls (handleWakelocks_read (Some n) t))"
    using t assms(3)
    by (simp_all add: handleWakelocks_read_def decrementRefCountAndMaybeReleaseWakelock_def
        Let_def wakelock_held_def min.absorb1)
qed

subsection \<open>Properties\<close>

text \<open>
  An example: after an initialisation a sub-HAL takes a scoped wake lock, posts a wake-up event
  and gives the lock up again.
\<close>

lemma example_started_times:
  "mWakelockTimeoutStartTime example_started = 0" "mWakelockTimeoutResetTime example_started = 91"
proof -
  let ?v = "stopThreads example_consts (stopping example_start) (example_proxy [])"
  obtain hals where s: "example_started
      = (restarted example_start 8 (quiet example_consts example_ops example_start (example_proxy [])))
          \<lparr>mSubHalList := hals, mCurrentOperationMode := NORMAL\<rparr>"
    unfolding example_started_def using initialized_state by blast
  obtain hals' where u: "quiet example_consts example_ops example_start (example_proxy [])
      = (resetSharedWakelock (start_now example_start) ?v)\<lparr>mSubHalList := hals'\<rparr>"
    using quiet_frame by blast
  have "mWakelockTimeoutStartTime ?v = 0"
    by (simp add: stopThreads_def wake_threads_def join_pending_writes_def join_wakelocks_def
        example_proxy_def emit_def Let_def)
  moreover have "start_now example_start = 91" by (simp add: example_start_def)
  ultimately show "mWakelockTimeoutStartTime example_started = 0"
    "mWakelockTimeoutResetTime example_started = 91"
    by (simp_all add: s u restarted_def resetSharedWakelock_def Let_def)
qed

definition example_locked :: "(unit, sensor_info list) hal_proxy" where
  "example_locked = snd (incrementRefCountAndMaybeAcquireWakelock 1 94 example_started)"

definition example_env :: post_env where
  "example_env = \<lparr>post_now = 95, availableToWrite = 0, write_succeeds = True\<rparr>"

definition example_waiting :: "(unit, sensor_info list) hal_proxy" where
  "example_waiting = postEventsToMessageQueue example_consts Pair example_env [example_event 1] 1 True example_locked"

definition example_unlocked :: "(unit, sensor_info list) hal_proxy" where
  "example_unlocked = decrementRefCountAndMaybeReleaseWakelock 1 94 example_waiting"

definition example_labels :: "lock_label list" where
  "example_labels = [STEP TAU, STEP (POST (posted_events Pair [example_event 1] example_locked)), STEP TAU]"

definition example_ledger :: ledger where
  "example_ledger = \<lparr>owed = 1, settled = wakeups (\<lambda>e. True) (written (calls example_started)),
     held = {#}, clock = 95\<rparr>"

lemma example_ledger_run:
  "ledger_run example_consts Pair (\<lambda>e. True) (example_started, new_ledger (\<lambda>e. True) example_started 93)
     example_labels (example_unlocked, example_ledger)"
proof -
  let ?L = "new_ledger (\<lambda>e. True) example_started 93 :: ledger"
  let ?L' = "?L\<lparr>held := add_mset 94 (held ?L), clock := 94\<rparr>"
  let ?L'' = "?L'\<lparr>owed := owed ?L' + unat (1 :: size_t), clock := post_now example_env\<rparr>"
  have "incrementRefCountAndMaybeAcquireWakelock 1 94 example_started = (Some 94, example_locked)"
    using example_started_count by (simp add: example_locked_def wakelock_defs)
  then have 1: "ledger_step example_consts Pair (\<lambda>e. True) (example_started, ?L) (STEP TAU) (example_locked, ?L')"
    by (rule ledger_step.acquire) (simp_all add: new_ledger_def)
  have 2: "ledger_step example_consts Pair (\<lambda>e. True) (example_locked, ?L')
      (STEP (POST (posted_events Pair [example_event 1] example_locked))) (example_waiting, ?L'')"
    unfolding example_waiting_def
    by (rule ledger_step.post)
      (simp_all add: vector_ok_def lock_matches_def wakeups_def posted_events_def new_ledger_def example_env_def)
  have 3: "ledger_step example_consts Pair (\<lambda>e. True) (example_waiting, ?L'') (STEP TAU)
      (example_unlocked, ?L''\<lparr>held := held ?L'' - {#94#}\<rparr>)"
    unfolding example_unlocked_def by (rule ledger_step.release) (simp add: new_ledger_def)
  have "?L''\<lparr>held := held ?L'' - {#94#}\<rparr> = example_ledger"
    by (simp add: new_ledger_def example_ledger_def example_env_def)
  with 3 have "ledger_step example_consts Pair (\<lambda>e. True) (example_waiting, ?L'') (STEP TAU)
      (example_unlocked, example_ledger)" by (simp only:)
  then have "ledger_run example_consts Pair (\<lambda>e. True) (example_waiting, ?L'') [STEP TAU]
      (example_unlocked, example_ledger)" by (rule run_one)
  with 2 have "ledger_run example_consts Pair (\<lambda>e. True) (example_locked, ?L')
      [STEP (POST (posted_events Pair [example_event 1] example_locked)), STEP TAU]
      (example_unlocked, example_ledger)" by (rule run_Cons)
  with 1 show ?thesis unfolding example_labels_def by (rule run_Cons)
qed

lemma example_clock: "clock_reads 93 example_started"
  by (simp add: clock_reads_def example_started_times)

lemma example_quiet: "mWakelockRefCount (example_proxy []) = 0" "\<not> wakelock_held (calls (example_proxy []))"
  by (simp_all add: example_proxy_def wakelock_held_def)

text \<open>
  C5: the device stays awake for a wake-up event.  From an initialisation on, with posting, both
  threads, scoped wake locks and the framework's calls interleaved, as long as no failing write
  takes wake-up events back, no acknowledgement times out and the framework acknowledges no more
  than it was given, the kernel wake lock is held in every state in which one of these events
  still waits to be written, or was given to the framework and is not acknowledged.  These are
  any events \<open>W\<close> that are counted when they are posted, as a callback does
  (\<open>callback_counts_wakeups\<close>); the steps leave out none of the proxy's but failing
  writes, initialisations and stops (\<open>hal_step_lock\<close>).
\<close>

theorem awake_while_wakeups_wait:
  assumes "limit_ok K" and "0 \<le> kWakelockTimeoutNs K"
    and "mWakelockRefCount s0 = 0" and "\<not> wakelock_held (calls s0)"
    and "s = snd (initializeCommon K ops env q s0)" and "clock_reads now s"
    and "ledger_run K process W (s, new_ledger W s now) ls (t, L)" and "TIMEOUT \<notin> set ls"
    and "(\<exists>e\<in>set (waiting_events t). W e) \<or> settled L < wakeups W (written (calls t))"
  shows "wakelock_held (calls t)"
proof -
  have start: "books_right K W (s, new_ledger W s now)"
    using assms by (intro initialized_books) simp_all
  have "settled L \<le> wakeups W (written (calls t))"
    using run_settled [OF assms(2,7) start assms(8)] by (simp add: new_ledger_def)
  moreover have "0 < wakeups W (waiting_events t)" if "\<exists>e\<in>set (waiting_events t). W e"
    using that by (auto simp: wakeups_def filter_empty_conv)
  ultimately have "settled L < wakeups W (posted_so_far t)"
    unfolding posted_so_far_def wakeups_append using assms(9) by linarith
  moreover have "books_right K W (t, L)" by (rule run_books [OF assms(2,7) start])
  ultimately have "0 < unat (mWakelockRefCount t)" and "lock_exact t"
    by (simp_all add: books_right_def lock_books_def)
  then show ?thesis by (simp add: lock_exact_def word_gt_0 unat_gt_0)
qed

theorem awake_while_wakeups_wait_witness: "wakelock_held (calls example_unlocked)"
proof (rule awake_while_wakeups_wait [OF limit_ok_example _ example_quiet example_started_def
      example_clock example_ledger_run])
  show "0 \<le> kWakelockTimeoutNs example_consts" by (simp add: example_consts_def)
  show "TIMEOUT \<notin> set example_labels" by (simp add: example_labels_def)
  let ?n = "\<lambda>es. wakeups (\<lambda>e. True) es"
  have "hal_run example_consts Pair example_started (map plain_label example_labels) example_unlocked"
    using ledger_run_hal [OF example_ledger_run] by simp
  from interleaved_events_complete [OF limit_ok_example example_started_def this]
  have "written (calls example_unlocked) @ waiting_events example_unlocked
      = written (calls example_started) @ posted_events Pair [example_event 1] example_locked"
    by (simp add: example_labels_def posted_events_def example_consts_def)
  then have "?n (written (calls example_unlocked) @ waiting_events example_unlocked)
      = ?n (written (calls example_started)) + 1"
    by (simp add: wakeups_def posted_events_def)
  then show "(\<exists>e\<in>set (waiting_events example_unlocked). True)
      \<or> settled example_ledger < ?n (written (calls example_unlocked))"
    by (cases "waiting_events example_unlocked = []") (simp_all add: example_ledger_def ex_in_conv)
qed



end
