(* ===== verification/Hal_Wellformed.thy ===== *)
theory Hal_Wellformed
  imports Hal_Interleaving
begin

text \<open>
  What keeps the memory accesses of the running proxy safe: indices into the list of sub-HALs
  are in range, the maps are in order, and the pointers that are followed are set.
\<close>

subsection \<open>Indices and maps\<close>

definition proxy_typed :: "nat \<Rightarrow> ('a, 'r) hal_proxy \<Rightarrow> bool" where
  "proxy_typed n s \<longleftrightarrow>
     length (mSubHalList s) = n
     \<and> (\<forall>i. mDirectChannelSubHal s = Some i \<longrightarrow> i < n)
     \<and> map_sorted (mSensors s) \<and> dynamic_inv s"

lemma proxy_typed_cong:
  assumes "length (mSubHalList t) = length (mSubHalList s)"
    and "mDirectChannelSubHal t = mDirectChannelSubHal s"
    and "mSensors t = mSensors s" and "mDynamicSensors t = mDynamicSensors s"
  shows "proxy_typed n t = proxy_typed n s"
  by (simp add: proxy_typed_def dynamic_inv_def assms)

lemma proxy_typed_view:
  assumes "hal_view t = hal_view s" and "mSensors t = mSensors s"
  shows "proxy_typed n t = proxy_typed n s"
  using assms by (intro proxy_typed_cong) (simp_all add: hal_view_def)

lemma proxy_typed_updates [simp]:
  "proxy_typed n (s\<lparr>mWakelockThread := w\<rparr>) = proxy_typed n s"
  "proxy_typed n (s\<lparr>mPendingWritesThread := p\<rparr>) = proxy_typed n s"
  "proxy_typed n (s\<lparr>mThreadsRun := b\<rparr>) = proxy_typed n s"
  "proxy_typed n (s\<lparr>mCurrentOperationMode := m\<rparr>) = proxy_typed n s"
  by (rule proxy_typed_cong; simp)+

text \<open>The constructors.\<close>

lemma typed_call: "proxy_typed n s \<Longrightarrow> proxy_typed n (snd (call_sub_hal i f s))"
  by (subst proxy_typed_cong [of _ s]) simp_all

lemma typed_register:
  assumes "i < n" and "proxy_typed n s"
  shows "proxy_typed n (register_sensor K ai i x s)"
  using assms
  by (auto simp: proxy_typed_def register_sensor_direct register_sensor_sensors sorted_assign
      dynamic_inv_def)
    (simp_all add: register_sensor_def setDirectChannelFlags_def Let_def)

lemma typed_sensor_list:
  "proxy_typed (length (mSubHalList s)) s
     \<Longrightarrow> proxy_typed (length (mSubHalList s)) (initializeSensorList K ops ai s)"
  by (rule initializeSensorList_invariant) (auto intro: typed_call typed_register)

lemma typed_constructed:
  assumes "nothing_known s"
  shows "proxy_typed (length xs + length ys) (HalProxy_from_lists K ops ai xs ys s)"
proof -
  let ?s = "s\<lparr>mSubHalList := map SubHalWrapperV2_0 xs @ map SubHalWrapperV2_1 ys\<rparr>"
  have "proxy_typed (length (mSubHalList ?s)) ?s"
    using assms by (simp add: nothing_known_def proxy_typed_def dynamic_inv_def sensor_map.filed_empty)
  from typed_sensor_list [OF this] show ?thesis
    using assms by (simp add: HalProxy_from_lists_def HalProxy_init_def nothing_known_def)
qed

text \<open>The steps.\<close>

lemma post_hal_view [simp]:
  "hal_view (postEventsToMessageQueue K process env es w locked s) = hal_view s"
  by (simp add: hal_view_def postEventsToMessageQueue_def keep_pending_def write_now_def
      wakelock_defs case_prod_unfold)

lemma post_sensors [simp]:
  fixes s :: "('a, 'r) hal_proxy"
  shows "mSensors (postEventsToMessageQueue K process env es w locked s) = mSensors s"
  by (simp add: postEventsToMessageQueue_def keep_pending_def write_now_def wakelock_defs
      case_prod_unfold)

lemma increment_hal_view [simp]:
  "hal_view (snd (incrementRefCountAndMaybeAcquireWakelock d t s)) = hal_view s"
  by (simp add: hal_view_def wakelock_defs)

lemma check_hal_view [simp]: "hal_view (fst (handleWakelocks_check K now now' s)) = hal_view s"
  by (simp add: handleWakelocks_check_def split: option.split)

lemma erase_sensors [simp]: "mSensors (handlePendingWrites_erase q n s) = mSensors s"
  by (simp add: handlePendingWrites_erase_def Let_def split: list.split)

lemma written_sorted:
  assumes "map_sorted (mSensors s)"
  shows "map_sorted (mSensors (handlePendingWrites_written K q n w ok s))"
  using assms
  by (simp add: handlePendingWrites_written_def countNumWakeupEvents_def sorted_count_wakeups
      case_prod_unfold Let_def split: list.split)

lemma typed_erase:
  assumes "proxy_typed n s"
  shows "proxy_typed n (handlePendingWrites_erase q m s)"
  using assms finish_view(2) [of q m s]
  by (auto simp: proxy_typed_def hal_view_def dynamic_inv_def)

lemma typed_written:
  assumes "proxy_typed n s"
  shows "proxy_typed n (handlePendingWrites_written K q m w ok s)"
  using assms finish_view(1) [of K q m w ok s] written_sorted [of s K q m w ok]
  by (auto simp: proxy_typed_def hal_view_def dynamic_inv_def)

lemma typed_finish:
  assumes "proxy_typed n s"
  shows "proxy_typed n (handlePendingWrites_finish K q m w ok s)"
  unfolding handlePendingWrites_finish_def using assms by (intro typed_erase typed_written)

lemma typed_stop:
  assumes "proxy_typed n s"
  shows "proxy_typed n (stopThreads K env s)"
proof -
  let ?s = "wake_threads (availableToRead env) (s\<lparr>mThreadsRun := False\<rparr>)"
  have "mSensors ?s = mSensors s"
    by (simp add: wake_threads_def Let_def)
  then have "proxy_typed n ?s"
    using assms by (subst proxy_typed_view [of _ s]) simp_all
  then have "proxy_typed n (join_pending_writes K ok ?s)" for ok
    by (simp add: join_pending_writes_def finish_pending_writes_def typed_finish typed_erase
        split: option.split pending_pc.split)
  moreover have "mSensors (join_wakelocks r now t) = mSensors t" for r now and t :: "('a, 'b) hal_proxy"
    by (simp add: join_wakelocks_def finish_wakelocks_def split: option.split wakelock_pc.split)
  ultimately show ?thesis
    unfolding stopThreads_def Let_def
    by (subst proxy_typed_view [of _ "join_pending_writes K (last_write_succeeds env) ?s"]) simp_all
qed

lemma typed_restarted:
  assumes "proxy_typed n s"
  shows "proxy_typed n (restarted env q (quiet K ops env s))"
proof -
  let ?t = "restarted env q (quiet K ops env s)"
  let ?v = "stopThreads K (stopping env) s"
  have stopped: "proxy_typed n ?v" by (rule typed_stop [OF assms])
  obtain hals where "quiet K ops env s = (resetSharedWakelock (start_now env) ?v)\<lparr>mSubHalList := hals\<rparr>"
    using quiet_frame by blast
  then have "mDirectChannelSubHal ?t = mDirectChannelSubHal ?v" "mSensors ?t = mSensors ?v"
    using wakelock_ops_view(3) [of "start_now env" ?v] by (simp_all add: restarted_def hal_view_def)
  moreover have "length (mSubHalList ?t) = n"
    using restarted_length [of env q K ops s] assms by (simp add: proxy_typed_def)
  moreover have "mDynamicSensors ?t = []" by (simp add: restarted_def)
  ultimately show ?thesis
    using stopped by (simp add: proxy_typed_def dynamic_inv_def sensor_map.filed_empty)
qed

lemma typed_initialize:
  assumes "proxy_typed n s"
  shows "proxy_typed n (snd (initializeCommon K ops env q s))"
proof -
  obtain hals where t: "snd (initializeCommon K ops env q s)
      = (restarted env q (quiet K ops env s))\<lparr>mSubHalList := hals, mCurrentOperationMode := NORMAL\<rparr>"
    using initialized_state by blast
  then have "length hals = length (mSubHalList (restarted env q (quiet K ops env s)))"
    using initializeCommon_result [where K = K and ops = ops and env = env and q = q and s = s] by simp
  then show ?thesis
    using typed_restarted [OF assms] unfolding t by (subst proxy_typed_cong) simp_all
qed

lemma typed_dynamic:
  assumes "proxy_typed n s"
  shows "proxy_typed n (onDynamicSensorsConnected K xs i s)"
    and "proxy_typed n (onDynamicSensorsDisconnected K hs i s)"
proof -
  have same: "mSubHalList (onDynamicSensorsConnected K xs i s) = mSubHalList s"
    "mSensors (onDynamicSensorsConnected K xs i s) = mSensors s"
    "mDirectChannelSubHal (onDynamicSensorsConnected K xs i s) = mDirectChannelSubHal s"
    "mSubHalList (onDynamicSensorsDisconnected K hs i s) = mSubHalList s"
    "mSensors (onDynamicSensorsDisconnected K hs i s) = mSensors s"
    "mDirectChannelSubHal (onDynamicSensorsDisconnected K hs i s) = mDirectChannelSubHal s"
    by (simp_all add: onDynamicSensorsConnected_def onDynamicSensorsDisconnected_def emit_def
        case_prod_unfold Let_def)
  show "proxy_typed n (onDynamicSensorsConnected K xs i s)"
    "proxy_typed n (onDynamicSensorsDisconnected K hs i s)"
    using assms dynamic_sensors_invariant [of s K xs i hs] by (simp_all add: proxy_typed_def same)
qed

lemma typed_mode:
  assumes "proxy_typed n s"
  shows "proxy_typed n (snd (setOperationMode ops m s))"
  using assms switch_modes_length [of ops m "mSubHalList s"]
  by (auto simp: setOperationMode_def proxy_typed_def dynamic_inv_def case_prod_unfold Let_def)

lemma typed_direct:
  assumes "proxy_typed n s"
  shows "proxy_typed n (snd (registerDirectChannel ops mem s))"
    and "proxy_typed n (snd (unregisterDirectChannel ops ch s))"
    and "proxy_typed n (snd (configDirectReport K ops h ch rate s))"
  using assms
  by (simp_all add: registerDirectChannel_def unregisterDirectChannel_def configDirectReport_def
      typed_call Let_def split: option.split)

lemma typed_debug: "proxy_typed n s \<Longrightarrow> proxy_typed n (snd (debug D now fd args s))"
  using debug_frame [of D now fd args s] by (auto simp: proxy_typed_def dynamic_inv_def)

lemma step_typed:
  assumes "hal_step K process s l t" and "proxy_typed n s"
  shows "proxy_typed n t"
  using assms
proof (cases rule: hal_step.cases)
  case (post es env w locked)
  then show ?thesis using assms(2) by (subst proxy_typed_view [of _ s]) simp_all
next
  case (check now now' u pc)
  then have "u = fst (handleWakelocks_check K now now' s)" by simp
  then show ?thesis
    using check(2) assms(2) by simp (subst proxy_typed_view [of _ s], simp_all)
next
  case (read timeLeft r)
  then show ?thesis using assms(2) by simp (subst proxy_typed_view [of _ s], simp_all)
next
  case (lock d now)
  then show ?thesis using assms(2) by (subst proxy_typed_view [of _ s]) simp_all
next
  case (unlock d timeoutStart)
  then show ?thesis using assms(2) by (subst proxy_typed_view [of _ s]) simp_all
qed (simp_all add: typed_written typed_erase typed_dynamic typed_mode typed_direct typed_initialize
    typed_restarted typed_call typed_debug proxy_call_eq)

text \<open>An example: two sub-HALs, an initialisation, and the start of a stop.\<close>

definition example_built :: "(unit, sensor_info list) hal_proxy" where
  "example_built = HalProxy_from_lists example_consts example_ops id
     [[example_sensor 1 0], [example_sensor 7 0x380]] [] (example_proxy [])"

definition example_built_trace :: "event label list" where
  "example_built_trace = [RESTART, TAU]"

lemma example_built_run:
  "hal_run example_consts Pair example_built example_built_trace
     ((snd (initializeCommon example_consts example_ops example_start 8 example_built))
        \<lparr>mThreadsRun := False\<rparr>)"
proof -
  let ?t = "snd (initializeCommon example_consts example_ops example_start 8 example_built)"
  have "hal_run example_consts Pair example_built [RESTART] ?t"
    by (rule run_one) (rule hal_step.restart)
  then have "hal_run example_consts Pair example_built ([RESTART] @ [TAU]) (?t\<lparr>mThreadsRun := False\<rparr>)"
    by (rule run.some) (rule hal_step.stop)
  then show ?thesis by (simp add: example_built_trace_def)
qed

subsection \<open>Pointers\<close>

text \<open>What the pointers of the proxy point to, as far as the model has it.\<close>

definition pointer_view :: "('a, 'r) hal_proxy \<Rightarrow> nat option \<times> bool \<times> bool \<times> bool \<times> bool" where
  "pointer_view s = (mEventQueue s, mWakeLockQueue s, mDynamicSensorsCallback s,
     mEventQueueFlag s, mWakelockQueueFlag s)"

lemma pointer_view_wakelock [simp]:
  "pointer_view (emit cs s) = pointer_view s"
  "pointer_view (snd (incrementRefCountAndMaybeAcquireWakelock d now s)) = pointer_view s"
  "pointer_view (decrementRefCountAndMaybeReleaseWakelock d timeoutStart s) = pointer_view s"
  "pointer_view (resetSharedWakelock now s) = pointer_view s"
  "pointer_view (handleWakelocks_read r s) = pointer_view s"
  by (simp_all add: pointer_view_def wakelock_defs handleWakelocks_read_def split: option.split)

lemma pointer_view_check [simp]:
  "pointer_view (fst (handleWakelocks_check K now now' s)) = pointer_view s"
  by (simp add: handleWakelocks_check_def split: option.split)

lemma pointer_view_count [simp]: "pointer_view (snd (countNumWakeupEvents K es n s)) = pointer_view s"
  by (simp add: pointer_view_def countNumWakeupEvents_def case_prod_unfold Let_def)

lemma pointer_view_updates [simp]:
  "pointer_view (s\<lparr>mSizePendingWriteEventsQueue := n\<rparr>) = pointer_view s"
  "pointer_view (s\<lparr>mPendingWriteEventsQueue := q\<rparr>) = pointer_view s"
  "pointer_view (s\<lparr>mThreadsRun := b\<rparr>) = pointer_view s"
  "pointer_view (s\<lparr>mPendingWritesThread := p\<rparr>) = pointer_view s"
  "pointer_view (s\<lparr>mWakelockThread := w\<rparr>) = pointer_view s"
  "pointer_view (s\<lparr>mCurrentOperationMode := m\<rparr>) = pointer_view s"
  by (simp_all add: pointer_view_def)

lemma pointer_view_finish [simp]:
  "pointer_view (handlePendingWrites_written K q n w ok s) = pointer_view s"
  "pointer_view (handlePendingWrites_erase q n s) = pointer_view s"
  by (simp_all add: handlePendingWrites_written_def handlePendingWrites_erase_def Let_def
      case_prod_unfold split: list.split)

lemma pointer_view_post [simp]:
  "pointer_view (postEventsToMessageQueue K process env es w locked s) = pointer_view s"
  by (simp add: pointer_view_def postEventsToMessageQueue_def keep_pending_def write_now_def
      wakelock_defs case_prod_unfold)

lemma pointer_view_calls [simp]:
  "pointer_view (onDynamicSensorsConnected K xs i s) = pointer_view s"
  "pointer_view (onDynamicSensorsDisconnected K hs i s) = pointer_view s"
  "pointer_view (snd (call_sub_hal j f s)) = pointer_view s"
  "pointer_view (snd (setOperationMode ops m s)) = pointer_view s"
  by (simp_all add: pointer_view_def onDynamicSensorsConnected_def onDynamicSensorsDisconnected_def
      call_sub_hal_def setOperationMode_def emit_def Let_def case_prod_unfold)

lemma pointer_view_direct [simp]:
  "pointer_view (snd (registerDirectChannel ops mem s)) = pointer_view s"
  "pointer_view (snd (unregisterDirectChannel ops ch s)) = pointer_view s"
  "pointer_view (snd (configDirectReport K ops h ch rate s)) = pointer_view s"
  by (simp_all add: registerDirectChannel_def unregisterDirectChannel_def configDirectReport_def
      Let_def split: option.split)

lemma pointer_view_debug [simp]: "pointer_view (snd (debug D now fd args s)) = pointer_view s"
  using debug_frame [of D now fd args s] by (auto simp: pointer_view_def)

lemma step_pointers:
  assumes "hal_step K process s l t" and "l \<noteq> RESTART"
  shows "pointer_view t = pointer_view s"
  using assms
proof (cases rule: hal_step.cases)
  case (check now now' u pc)
  then show ?thesis using pointer_view_check [of K now now' s] by simp
qed (simp_all add: proxy_call_eq)

lemma run_pointers:
  "run (hal_step K process) s ls t \<Longrightarrow> RESTART \<notin> set ls \<Longrightarrow> pointer_view t = pointer_view s"
  by (induction rule: run.induct) (auto dest: step_pointers)

text \<open>
  C22: which pointers are set.  After an initialisation, and as long as there is no other one,
  the two queues and the callback are set, so following them is safe.  Each event flag is
  set exactly if it could be created; the result of the initialisation is an error if one
  could not, but the threads have been started and the sub-HALs initialised all the same, so
  the first event that is posted is announced through a null pointer.
\<close>

theorem initialized_pointers:
  assumes "initializeCommon K ops env q s0 = (r, s)"
    and "hal_run K process s ls t" and "RESTART \<notin> set ls"
  shows "mEventQueue t = Some q \<and> mWakeLockQueue t \<and> mDynamicSensorsCallback t
       \<and> (mEventQueueFlag t \<longleftrightarrow> createEventFlag_ok env)
       \<and> (mWakelockQueueFlag t \<longleftrightarrow> createWakelockFlag_ok env)
       \<and> (r = OK \<longrightarrow> mEventQueueFlag t \<and> mWakelockQueueFlag t) \<and> mThreadsRun s"
proof -
  have s: "s = snd (initializeCommon K ops env q s0)" and r: "r = fst (initializeCommon K ops env q s0)"
    using assms(1) by simp_all
  obtain hals where "s = (restarted env q (quiet K ops env s0))
      \<lparr>mSubHalList := hals, mCurrentOperationMode := NORMAL\<rparr>"
    using initialized_state s by blast
  then have "pointer_view s = (Some q, True, True, createEventFlag_ok env, createWakelockFlag_ok env)"
    and "mThreadsRun s"
    by (simp_all add: pointer_view_def restarted_def)
  moreover have "createEventFlag_ok env \<and> createWakelockFlag_ok env" if "r = OK"
    using that initializeCommon_result [where K = K and ops = ops and env = env and q = q and s = s0]
    by (simp add: r last_failure_OK flags_result_def split: if_splits)
  ultimately show ?thesis
    using run_pointers [OF assms(2,3)] by (simp add: pointer_view_def)
qed

definition flagless_start :: start_env where
  "flagless_start = example_start\<lparr>createEventFlag_ok := False\<rparr>"

theorem initialized_pointers_witness:
  "\<not> mEventQueueFlag (snd (initializeCommon example_consts example_ops flagless_start 8 example_built))
   \<and> mThreadsRun (snd (initializeCommon example_consts example_ops flagless_start 8 example_built))"
proof -
  obtain r t where p: "initializeCommon example_consts example_ops flagless_start 8 example_built = (r, t)"
    by fastforce
  have "\<not> createEventFlag_ok flagless_start"
    by (simp add: flagless_start_def)
  with initialized_pointers [OF p, OF run.none] show ?thesis by (simp add: p)
qed

end
