(* ===== verification/Sensor_List_Spec.thy ===== *)
theory Sensor_List_Spec
  imports Proxy_Calls
begin

text \<open>
  What \<open>initializeSensorList\<close> computes, said without its loops.  The code goes through the
  sensors once and decides on the way which sub-HAL owns the direct channel; the description
  here first finds the owner, and then what every sensor looks like in the list.
\<close>

subsection \<open>The description\<close>

text \<open>The sub-HAL that owns the direct channel: the first that offers it.\<close>

definition direct_owner :: "hal_consts \<Rightarrow> (nat \<Rightarrow> sensor_info list) \<Rightarrow> nat \<Rightarrow> nat option" where
  "direct_owner K rep n = List.find (\<lambda>i. offers_direct K (rep i)) [0 ..< n]"

text \<open>A sensor of sub-HAL \<open>i\<close> in the list.\<close>

definition listed :: "hal_consts \<Rightarrow> nat option \<Rightarrow> nat \<Rightarrow> sensor_info \<Rightarrow> sensor_info" where
  "listed K owner i x = x
     \<lparr>info_sensorHandle := proxy_handle i x,
      info_type := (if info_type x = SENSOR_TYPE_QTI_WISE_LIGHT then LIGHT K else info_type x),
      info_flags := (if owner = Some i then info_flags x else info_flags x AND NOT (direct_mask K))\<rparr>"

definition entries :: "hal_consts \<Rightarrow> nat option \<Rightarrow> nat \<Rightarrow> sensor_info list \<Rightarrow> (i32 \<times> sensor_info) list" where
  "entries K owner i xs =
     map (\<lambda>x. (proxy_handle i x, listed K owner i x))
       (filter (\<lambda>x. subHalIndexIsClear K (info_sensorHandle x)) xs)"

definition all_entries :: "hal_consts \<Rightarrow> (nat \<Rightarrow> sensor_info list) \<Rightarrow> nat \<Rightarrow> (i32 \<times> sensor_info) list" where
  "all_entries K rep n =
     concat (map (\<lambda>i. entries K (direct_owner K rep n) i (rep i)) [0 ..< n])"

subsection \<open>One sensor\<close>

lemma and_not_idle: "a AND m = 0 \<Longrightarrow> a AND NOT m = (a :: 'a::len word)"
  by (simp add: bit_eq_iff bit_simps) blast

lemma filed_listed:
  assumes "subHalIndexIsClear K (info_sensorHandle x)"
    and "\<forall>j. mDirectChannelSubHal (register_sensor K ai i x s) = Some j \<longrightarrow> owner = Some j"
  shows "filed_info K i x s = listed K owner i x"
proof -
  have "info_flags x AND direct_mask K = 0 \<or> mDirectChannelSubHal (register_sensor K ai i x s) \<noteq> None"
    using assms(1) by (auto simp: register_sensor_direct)
  then consider "info_flags x AND direct_mask K = 0"
    | j where "info_flags x AND direct_mask K \<noteq> 0"
        "mDirectChannelSubHal (register_sensor K ai i x s) = Some j" "owner = Some j"
    using assms(2) by blast
  then show ?thesis
  proof cases
    case 1
    then show ?thesis
      by (simp add: filed_info_def listed_def setDirectChannelFlags_def and_not_idle Let_def)
  next
    case 2
    then show ?thesis
      using assms(1)
      by (auto simp: filed_info_def listed_def setDirectChannelFlags_def register_sensor_direct
          Let_def split: if_splits)
  qed
qed

subsection \<open>The loops\<close>

lemma direct_stays:
  assumes "mDirectChannelSubHal s = Some j"
  shows "mDirectChannelSubHal (fold (register_sensor K ai i) xs s) = Some j"
  using assms by (simp add: direct_after_list)

text \<open>
  The owner can be used from the start, as long as it is what the loop finds, if it finds any.
\<close>

definition finds :: "('a, 'r) hal_proxy \<Rightarrow> nat option \<Rightarrow> bool" where
  "finds s owner \<longleftrightarrow> (\<forall>j. mDirectChannelSubHal s = Some j \<longrightarrow> owner = Some j)"

abbreviation assign_all :: "(i32 \<times> sensor_info) list \<Rightarrow> sensor_info i32_map \<Rightarrow> sensor_info i32_map" where
  "assign_all \<equiv> fold (\<lambda>(k, v). map_assign k v)"

lemma register_list_map:
  assumes "finds (fold (register_sensor K ai i) xs s) owner"
  shows "mSensors (fold (register_sensor K ai i) xs s) = assign_all (entries K owner i xs) (mSensors s)"
  using assms
proof (induction xs arbitrary: s)
  case (Cons x xs)
  let ?s = "register_sensor K ai i x s"
  have IH: "mSensors (fold (register_sensor K ai i) xs ?s) = assign_all (entries K owner i xs) (mSensors ?s)"
    using Cons by simp
  have "\<forall>j. mDirectChannelSubHal ?s = Some j \<longrightarrow> owner = Some j"
    using Cons.prems direct_stays [where s = ?s] by (simp add: finds_def)
  then have "mSensors ?s = assign_all (entries K owner i [x]) (mSensors s)"
    using filed_listed [of K x ai i s owner] by (simp add: register_sensor_sensors entries_def)
  with IH show ?case by (simp add: entries_def)
qed (simp add: entries_def)

lemma register_upto_map:
  assumes "finds (fold (register_sub_hal K ops ai) [0 ..< n] s) owner"
  shows "mSensors (fold (register_sub_hal K ops ai) [0 ..< n] s)
       = assign_all (concat (map (\<lambda>i. entries K owner i (reported ops s i)) [0 ..< n])) (mSensors s)"
  using assms
proof (induction n)
  case (Suc n)
  let ?t = "fold (register_sub_hal K ops ai) [0 ..< n] s"
  let ?u = "snd (call_sub_hal n (sub_getSensorsList ops) ?t)"
  have step: "fold (register_sub_hal K ops ai) [0 ..< Suc n] s
      = fold (register_sensor K ai n) (reported ops s n) ?u"
    by (simp add: register_sub_hal_fold [of K ops ai n ?t])
  have "mDirectChannelSubHal ?u = mDirectChannelSubHal ?t" by simp
  then have "finds ?t owner"
    using Suc.prems direct_stays [where s = ?u] unfolding step finds_def by metis
  note IH = Suc.IH [OF this]
  have "mSensors (fold (register_sub_hal K ops ai) [0 ..< Suc n] s)
      = assign_all (entries K owner n (reported ops s n)) (mSensors ?u)"
    using Suc.prems unfolding step by (rule register_list_map)
  with IH show ?case by simp
qed simp

lemma assign_all_find:
  "map_find (assign_all kvs m) k = (case map_of (rev kvs) k of Some v \<Rightarrow> Some v | None \<Rightarrow> map_find m k)"
proof (induction kvs rule: rev_induct)
  case (snoc kv kvs)
  then show ?case by (cases kv) (simp add: find_assign)
qed simp

lemma sorted_assign_all: "map_sorted m \<Longrightarrow> map_sorted (assign_all kvs m)"
  by (induction kvs arbitrary: m) (auto simp: sorted_assign)

lemma sensor_list_map:
  assumes "mSensors s = []" and "mDirectChannelSubHal s = None"
    and "t = initializeSensorList K ops ai s"
  shows "map_find (mSensors t) h
         = map_of (rev (all_entries K (reported ops s) (length (mSubHalList s)))) h
       \<and> map_sorted (mSensors t)
       \<and> mDirectChannelSubHal t = direct_owner K (reported ops s) (length (mSubHalList s))"
proof -
  let ?n = "length (mSubHalList s)"
  have owner: "mDirectChannelSubHal t = direct_owner K (reported ops s) ?n"
    using assms by (simp add: initializeSensorList_def direct_after_upto direct_owner_def)
  then have "finds t (direct_owner K (reported ops s) ?n)"
    by (simp add: finds_def)
  then have "mSensors t = assign_all (all_entries K (reported ops s) ?n) []"
    unfolding assms(3) initializeSensorList_def all_entries_def
    by (subst register_upto_map) (simp_all add: assms(1))
  then show ?thesis
    using owner by (simp add: assign_all_find sorted_assign_all split: option.split)
qed

text \<open>
  C9: the list of sensors is what its description says.  After the constructor has run its two
  loops, the proxy knows exactly the sensors that were reported with a clear first byte,
  each under its packed handle and described as it was reported, except that the vendor's
  light sensors have the standard type and that only the sensors of the first sub-HAL that
  offers direct channels keep their direct channel flags; of two sensors with the same
  packed handle the later one stays.  The list is in the order of the handles.
\<close>

theorem sensor_list_as_described:
  assumes "mSensors s = []" and "mDirectChannelSubHal s = None"
    and "t = initializeSensorList K ops ai s"
  shows "map_find (mSensors t) h
         = map_of (rev (all_entries K (reported ops s) (length (mSubHalList s)))) h
       \<and> map_sorted (mSensors t)
       \<and> mDirectChannelSubHal t = direct_owner K (reported ops s) (length (mSubHalList s))"
  using assms by (rule sensor_list_map)

theorem sensor_list_as_described_witness:
  "map_find (mSensors (initializeSensorList example_consts example_ops id
      (example_proxy [[example_sensor 1 0], [example_sensor 7 0x380], [example_sensor 7 0x380]]))) 0x2000007
     = map_of (rev (all_entries example_consts
         (reported example_ops (example_proxy
            [[example_sensor 1 0], [example_sensor 7 0x380], [example_sensor 7 0x380]])) 3)) 0x2000007
   \<and> mDirectChannelSubHal (initializeSensorList example_consts example_ops id
      (example_proxy [[example_sensor 1 0], [example_sensor 7 0x380], [example_sensor 7 0x380]]))
     = direct_owner example_consts (reported example_ops (example_proxy
            [[example_sensor 1 0], [example_sensor 7 0x380], [example_sensor 7 0x380]])) 3"
  using sensor_list_as_described [OF _ _ refl,
      of "example_proxy [[example_sensor 1 0], [example_sensor 7 0x380], [example_sensor 7 0x380]]"]
  by (simp add: example_proxy_def numeral_3_eq_3)

end
