(* ===== verification/Framework_View.thy ===== *)
theory Framework_View
  imports Hal_Wellformed Sensor_List_Spec
begin

text \<open>
  The sensors as the framework knows them while the proxy runs.  The list of sensors is fixed by
  the constructor, and every sensor in it stays reachable; the dynamic sensors are those the
  framework has been told about.
\<close>

subsection \<open>The list of sensors in a run\<close>

text \<open>
  Counting wake-up events looks descriptions up with \<open>operator[]\<close>, which can add the default
  description under a handle that is not listed.
\<close>

definition only_adds_defaults :: "sensor_info i32_map \<Rightarrow> sensor_info i32_map \<Rightarrow> bool" where
  "only_adds_defaults m m' \<longleftrightarrow> (\<forall>h. map_find m' h = map_find m h
     \<or> map_find m h = None \<and> map_find m' h = Some default_sensor_info)"

lemma adds_refl [simp]: "only_adds_defaults m m"
  by (simp add: only_adds_defaults_def)

lemma adds_trans: "only_adds_defaults m m' \<Longrightarrow> only_adds_defaults m' m'' \<Longrightarrow> only_adds_defaults m m''"
  unfolding only_adds_defaults_def by (metis option.distinct(1))

lemma adds_count: "only_adds_defaults m (snd (count_wakeups K es m))"
proof (induction es arbitrary: m)
  case (Cons e es)
  have "only_adds_defaults m (snd (map_at default_sensor_info (sensorHandle e) m))"
    by (simp add: only_adds_defaults_def map_at_def find_assign split: option.split)
  with Cons.IH show ?case
    by (simp add: Let_def case_prod_unfold) (rule adds_trans)
qed simp

definition listing_kept :: "('a, 'r) hal_proxy \<Rightarrow> ('a, 'r) hal_proxy \<Rightarrow> bool" where
  "listing_kept s t \<longleftrightarrow> only_adds_defaults (mSensors s) (mSensors t)
     \<and> mDirectChannelSubHal t = mDirectChannelSubHal s"

lemma kept_same:
  "mSensors t = mSensors s \<Longrightarrow> mDirectChannelSubHal t = mDirectChannelSubHal s \<Longrightarrow> listing_kept s t"
  by (simp add: listing_kept_def)

lemma kept_view: "hal_view t = hal_view s \<Longrightarrow> mSensors t = mSensors s \<Longrightarrow> listing_kept s t"
  by (rule kept_same) (simp_all add: hal_view_def)

lemma kept_trans: "listing_kept s t \<Longrightarrow> listing_kept t u \<Longrightarrow> listing_kept s u"
  by (auto simp: listing_kept_def intro: adds_trans)

lemma kept_written: "listing_kept s (handlePendingWrites_written K q n w ok s)"
proof -
  have "only_adds_defaults (mSensors s) (mSensors (handlePendingWrites_written K q n w ok s))"
    by (simp add: handlePendingWrites_written_def countNumWakeupEvents_def adds_count
        case_prod_unfold Let_def split: list.split)
  then show ?thesis
    using finish_view(1) [of K q n w ok s] by (simp add: listing_kept_def hal_view_def)
qed

lemma kept_erase: "listing_kept s (handlePendingWrites_erase q n s)"
  using finish_view(2) [of q n s] by (intro kept_view) simp_all

lemma kept_finish: "listing_kept s (handlePendingWrites_finish K q n w ok s)"
  unfolding handlePendingWrites_finish_def by (rule kept_trans [OF kept_written kept_erase])

lemma kept_updates:
  "listing_kept s (t\<lparr>mPendingWritesThread := p\<rparr>) = listing_kept s t"
  "listing_kept s (t\<lparr>mWakelockThread := w\<rparr>) = listing_kept s t"
  by (simp_all add: listing_kept_def)

lemma kept_stop: "listing_kept s (stopThreads K env s)"
proof -
  let ?s = "wake_threads (availableToRead env) (s\<lparr>mThreadsRun := False\<rparr>)"
  let ?t = "join_pending_writes K (last_write_succeeds env) ?s"
  have "listing_kept s ?s"
    by (rule kept_same) (simp_all add: wake_threads_def emit_def Let_def)
  moreover have "listing_kept ?s ?t"
    by (simp add: join_pending_writes_def finish_pending_writes_def kept_finish kept_erase kept_updates
        kept_same split: option.split pending_pc.split)
  moreover have "listing_kept ?t (join_wakelocks r now ?t)" for r now
    by (rule kept_view)
      (simp_all add: join_wakelocks_def finish_wakelocks_def split: option.split wakelock_pc.split)
  ultimately show ?thesis
    unfolding stopThreads_def Let_def by (blast intro: kept_trans)
qed

lemma kept_restarted: "listing_kept s (restarted env q (quiet K ops env s))"
proof -
  let ?v = "stopThreads K (stopping env) s"
  obtain hals where "quiet K ops env s = (resetSharedWakelock (start_now env) ?v)\<lparr>mSubHalList := hals\<rparr>"
    using quiet_frame by blast
  then have "listing_kept ?v (restarted env q (quiet K ops env s))"
    using wakelock_ops_view(3) [of "start_now env" ?v]
    by (intro kept_same) (simp_all add: restarted_def hal_view_def)
  with kept_stop show ?thesis by (rule kept_trans)
qed

lemma kept_initialized: "listing_kept s (snd (initializeCommon K ops env q s))"
proof -
  obtain hals where "snd (initializeCommon K ops env q s)
      = (restarted env q (quiet K ops env s))\<lparr>mSubHalList := hals, mCurrentOperationMode := NORMAL\<rparr>"
    using initialized_state by blast
  then show ?thesis using kept_restarted [of s env q K ops] by (simp add: listing_kept_def)
qed

lemma kept_calls:
  "listing_kept s (onDynamicSensorsConnected K xs i s)"
  "listing_kept s (onDynamicSensorsDisconnected K hs i s)"
  "listing_kept s (snd (call_sub_hal j f s))"
  "listing_kept s (snd (setOperationMode ops m s))"
  "listing_kept s (snd (registerDirectChannel ops mem s))"
  "listing_kept s (snd (unregisterDirectChannel ops ch s))"
  "listing_kept s (snd (configDirectReport K ops h ch rate s))"
  by (rule kept_same; simp add: onDynamicSensorsConnected_def onDynamicSensorsDisconnected_def
      setOperationMode_def registerDirectChannel_def unregisterDirectChannel_def
      configDirectReport_def emit_def Let_def case_prod_unfold split: option.split)+

lemma kept_debug: "listing_kept s (snd (debug D now fd args s))"
  using debug_frame [of D now fd args s] by (auto intro: kept_same)

lemma kept_wakelock:
  "listing_kept s (handleWakelocks_read r s)"
  "listing_kept s (snd (incrementRefCountAndMaybeAcquireWakelock d now s))"
  "listing_kept s (decrementRefCountAndMaybeReleaseWakelock d timeoutStart s)"
  by (rule kept_view; simp)+

lemma step_kept:
  assumes "hal_step K process s l t"
  shows "listing_kept s t"
  using assms
proof (cases rule: hal_step.cases)
  case (post es env w locked)
  then show ?thesis by (intro kept_view) simp_all
next
  case (check now now' u pc)
  then have "u = fst (handleWakelocks_check K now now' s)" by simp
  then show ?thesis
    unfolding check(2) kept_updates by (intro kept_view) simp_all
qed (simp_all add: kept_written kept_erase kept_updates kept_calls kept_debug kept_initialized
    kept_restarted kept_wakelock proxy_call_eq kept_same)

lemma run_kept:
  assumes "hal_run K process s ls t"
  shows "listing_kept s t"
  using assms
proof (induction rule: run.induct)
  case (some s ls t l u)
  then show ?case using step_kept kept_trans by blast
qed (simp add: kept_same)

text \<open>Where an entry of the description comes from.\<close>

lemma described_origin:
  assumes "map_of (rev (all_entries K rep n)) h = Some info"
  obtains i x where "i < n" "x \<in> set (rep i)" "subHalIndexIsClear K (info_sensorHandle x)"
    "h = proxy_handle i x" "info = listed K (direct_owner K rep n) i x"
proof -
  have "(h, info) \<in> set (all_entries K rep n)"
    using map_of_SomeD [OF assms] by simp
  then show thesis by (auto simp: all_entries_def entries_def intro: that)
qed

lemma run_typed:
  assumes "nothing_known s0" and "s = HalProxy_from_lists K ops ai xs ys s0"
    and "hal_run K process s ls t"
  shows "proxy_typed (length xs + length ys) t"
  using assms(3)
proof (rule run_invariant)
  show "proxy_typed (length xs + length ys) s"
    unfolding assms(2) by (rule typed_constructed [OF assms(1)])
qed (rule step_typed)

lemma constructed_proxy:
  assumes "nothing_known s0" and "s1 = s0\<lparr>mSubHalList := hals\<rparr>"
    and "hals = map SubHalWrapperV2_0 xs @ map SubHalWrapperV2_1 ys"
  shows "HalProxy_from_lists K ops ai xs ys s0 = initializeSensorList K ops ai s1"
    and "mSensors s1 = []" and "mDirectChannelSubHal s1 = None" and "mSubHalList s1 = hals"
  using assms by (simp_all add: HalProxy_from_lists_def HalProxy_init_def nothing_known_def)

subsection \<open>Dynamic sensors as announced\<close>

text \<open>The framework's books of the dynamic sensors: what an announcement does to them.\<close>

fun announce :: "ext_call \<Rightarrow> (i32 \<rightharpoonup> sensor_info) \<Rightarrow> (i32 \<rightharpoonup> sensor_info)" where
  "announce (ON_DYNAMIC_SENSORS_CONNECTED sensors) m =
     fold (\<lambda>x m. m(info_sensorHandle x \<mapsto> x)) sensors m"
| "announce (ON_DYNAMIC_SENSORS_DISCONNECTED handles) m = m |` (- set handles)"
| "announce _ m = m"

fun is_announcement :: "ext_call \<Rightarrow> bool" where
  "is_announcement (ON_DYNAMIC_SENSORS_CONNECTED sensors) = True"
| "is_announcement (ON_DYNAMIC_SENSORS_DISCONNECTED handles) = True"
| "is_announcement _ = False"

definition announcements :: "ext_call list \<Rightarrow> ext_call list" where
  "announcements cs = filter is_announcement cs"

definition known_after :: "ext_call list \<Rightarrow> (i32 \<rightharpoonup> sensor_info)" where
  "known_after cs = fold announce cs Map.empty"

text \<open>No sensor is announced as gone, or gone twice, that the framework does not know.\<close>

fun fits :: "ext_call \<Rightarrow> (i32 \<rightharpoonup> sensor_info) \<Rightarrow> bool" where
  "fits (ON_DYNAMIC_SENSORS_DISCONNECTED handles) m \<longleftrightarrow> distinct handles \<and> set handles \<subseteq> dom m"
| "fits _ m \<longleftrightarrow> True"

definition in_turn :: "ext_call list \<Rightarrow> bool" where
  "in_turn cs \<longleftrightarrow> (\<forall>n < length cs. fits (cs ! n) (known_after (take n cs)))"

lemma announcements_append [simp]: "announcements (xs @ ys) = announcements xs @ announcements ys"
  by (simp add: announcements_def)

lemma announcements_none [simp]:
  "announcements [] = []"
  "announcements (c # cs) = (if is_announcement c then c # announcements cs else announcements cs)"
  by (simp_all add: announcements_def)

lemma known_after_none [simp]: "known_after [] = Map.empty"
  by (simp add: known_after_def)

lemma known_after_snoc [simp]: "known_after (cs @ [c]) = announce c (known_after cs)"
  by (simp add: known_after_def)

lemma in_turn_none [simp]: "in_turn []"
  by (simp add: in_turn_def)

lemma in_turn_snoc: "in_turn cs \<Longrightarrow> fits c (known_after cs) \<Longrightarrow> in_turn (cs @ [c])"
  by (auto simp: in_turn_def nth_append less_Suc_eq)

text \<open>What the other steps leave alone.\<close>

definition dynamic_view :: "('a, 'r) hal_proxy \<Rightarrow> sensor_info i32_map \<times> ext_call list" where
  "dynamic_view s = (mDynamicSensors s, announcements (calls s))"

lemma dynamic_view_wakelock [simp]:
  "dynamic_view (snd (incrementRefCountAndMaybeAcquireWakelock d now s)) = dynamic_view s"
  "dynamic_view (decrementRefCountAndMaybeReleaseWakelock d timeoutStart s) = dynamic_view s"
  "dynamic_view (resetSharedWakelock now s) = dynamic_view s"
  "dynamic_view (handleWakelocks_read r s) = dynamic_view s"
  by (simp_all add: dynamic_view_def wakelock_defs handleWakelocks_read_def split: option.split)

lemma dynamic_view_check [simp]:
  "dynamic_view (fst (handleWakelocks_check K now now' s)) = dynamic_view s"
  by (simp add: handleWakelocks_check_def split: option.split)

lemma dynamic_view_updates [simp]:
  "dynamic_view (s\<lparr>mSensors := m\<rparr>) = dynamic_view s"
  "dynamic_view (s\<lparr>mSizePendingWriteEventsQueue := n\<rparr>) = dynamic_view s"
  "dynamic_view (s\<lparr>mPendingWriteEventsQueue := q\<rparr>) = dynamic_view s"
  "dynamic_view (s\<lparr>mThreadsRun := b\<rparr>) = dynamic_view s"
  "dynamic_view (s\<lparr>mPendingWritesThread := p\<rparr>) = dynamic_view s"
  "dynamic_view (s\<lparr>mWakelockThread := w\<rparr>) = dynamic_view s"
  "dynamic_view (s\<lparr>mCurrentOperationMode := mode\<rparr>) = dynamic_view s"
  "dynamic_view (s\<lparr>mSubHalList := hals\<rparr>) = dynamic_view s"
  by (simp_all add: dynamic_view_def)

lemma dynamic_view_emit [simp]: "announcements cs = [] \<Longrightarrow> dynamic_view (emit cs s) = dynamic_view s"
  by (simp add: dynamic_view_def emit_def)

lemma dynamic_view_finish [simp]:
  "dynamic_view (handlePendingWrites_written K q n w ok s) = dynamic_view s"
  "dynamic_view (handlePendingWrites_erase q n s) = dynamic_view s"
  by (simp_all add: handlePendingWrites_written_def handlePendingWrites_erase_def
      countNumWakeupEvents_def Let_def case_prod_unfold split: list.split)

lemma dynamic_view_post [simp]:
  "dynamic_view (postEventsToMessageQueue K process env es w locked s) = dynamic_view s"
  by (simp add: dynamic_view_def postEventsToMessageQueue_def keep_pending_def write_now_def
      wakelock_defs case_prod_unfold)

lemma dynamic_view_calls [simp]:
  "dynamic_view (snd (call_sub_hal j f s)) = dynamic_view s"
  "dynamic_view (snd (setOperationMode ops m s)) = dynamic_view s"
  by (simp_all add: call_sub_hal_def setOperationMode_def dynamic_view_def Let_def case_prod_unfold)

lemma dynamic_view_direct [simp]:
  "dynamic_view (snd (registerDirectChannel ops mem s)) = dynamic_view s"
  "dynamic_view (snd (unregisterDirectChannel ops ch s)) = dynamic_view s"
  "dynamic_view (snd (configDirectReport K ops h ch rate s)) = dynamic_view s"
  by (simp_all add: registerDirectChannel_def unregisterDirectChannel_def configDirectReport_def
      Let_def split: option.split)

lemma dynamic_view_debug [simp]: "dynamic_view (snd (debug D now fd args s)) = dynamic_view s"
  using debug_frame [of D now fd args s] by (auto simp: dynamic_view_def)

lemma step_dynamic:
  assumes "hal_step K process s l t" and "l \<noteq> RESTART"
  obtains (connected) xs i where "t = onDynamicSensorsConnected K xs i s"
  | (disconnected) hs i where "t = onDynamicSensorsDisconnected K hs i s"
  | (other) "dynamic_view t = dynamic_view s"
  using assms(1)
proof (cases rule: hal_step.cases)
  case connected
  then show thesis by (intro that(1))
next
  case disconnected
  then show thesis by (intro that(2))
next
  case (check now now' u pc)
  then have "u = fst (handleWakelocks_check K now now' s)" by simp
  then show thesis unfolding check(2) by (intro other) (simp add: check(2))
qed (use assms(2) in \<open>auto intro: other simp: proxy_call_eq\<close>)

text \<open>What the two loops announce is what they do to the map.\<close>

lemma find_assigned:
  "map_find (fold (\<lambda>x. map_assign (info_sensorHandle x) x) xs m)
     = fold (\<lambda>x m. m(info_sensorHandle x \<mapsto> x)) xs (map_find m)"
proof (induction xs arbitrary: m)
  case (Cons x xs)
  have "map_find (map_assign (info_sensorHandle x) x m) = (map_find m)(info_sensorHandle x \<mapsto> x)"
    by (simp add: fun_eq_iff find_assign)
  with Cons.IH show ?case by simp
qed simp

lemma connected_announced:
  obtains c where "announcements (calls (onDynamicSensorsConnected K xs i s)) = announcements (calls s) @ [c]"
    and "map_find (mDynamicSensors (onDynamicSensorsConnected K xs i s))
      = announce c (map_find (mDynamicSensors s))"
    and "\<And>m. fits c m"
  by (rule that [of "ON_DYNAMIC_SENSORS_CONNECTED (fst (connect_loop K (scast i) xs (mDynamicSensors s)))"])
    (simp_all add: onDynamicSensorsConnected_def case_prod_unfold Let_def find_assigned
      connect_loop_map [of K "scast i" xs "mDynamicSensors s"] emit_def)

lemma disconnected_announced:
  assumes "dynamic_inv s"
  obtains c where "announcements (calls (onDynamicSensorsDisconnected K hs i s)) = announcements (calls s) @ [c]"
    and "map_find (mDynamicSensors (onDynamicSensorsDisconnected K hs i s))
      = announce c (map_find (mDynamicSensors s))"
    and "fits c (map_find (mDynamicSensors s))"
proof -
  let ?t = "onDynamicSensorsDisconnected K hs i s"
  obtain gone where gone: "calls ?t = calls s @ [ON_DYNAMIC_SENSORS_DISCONNECTED gone]" "distinct gone"
    and which: "set gone = {setSubHalIndex h (scast i) |h. h \<in> set hs \<and> subHalIndexIsClear K h
            \<and> map_find (mDynamicSensors s) (setSubHalIndex h (scast i)) \<noteq> None}"
    and left: "\<forall>k. map_find (mDynamicSensors ?t) k
            = (if k \<in> set gone then None else map_find (mDynamicSensors s) k)"
    using disconnected_sensors_exact [OF assms refl, of K hs i] by blast
  show thesis
  proof (rule that [of "ON_DYNAMIC_SENSORS_DISCONNECTED gone"])
    show "map_find (mDynamicSensors ?t)
        = announce (ON_DYNAMIC_SENSORS_DISCONNECTED gone) (map_find (mDynamicSensors s))"
      using left by (simp add: fun_eq_iff restrict_map_def)
    show "fits (ON_DYNAMIC_SENSORS_DISCONNECTED gone) (map_find (mDynamicSensors s))"
      using gone(2) which by auto
  qed (simp add: gone(1))
qed

text \<open>The invariant of a run: the map is what the announcements since its start make known.\<close>

definition as_announced :: "ext_call list \<Rightarrow> ('a, 'r) hal_proxy \<Rightarrow> bool" where
  "as_announced before s \<longleftrightarrow> dynamic_inv s \<and>
     (\<exists>new. announcements (calls s) = before @ new \<and> in_turn new
        \<and> map_find (mDynamicSensors s) = known_after new)"

lemma announced_snoc:
  assumes "as_announced before s" and "dynamic_inv t"
    and "announcements (calls t) = announcements (calls s) @ [c]"
    and "map_find (mDynamicSensors t) = announce c (map_find (mDynamicSensors s))"
    and "fits c (map_find (mDynamicSensors s))"
  shows "as_announced before t"
proof -
  obtain new where new: "announcements (calls s) = before @ new" "in_turn new"
    "map_find (mDynamicSensors s) = known_after new"
    using assms(1) by (auto simp: as_announced_def)
  then have "announcements (calls t) = before @ new @ [c]" and "in_turn (new @ [c])"
    and "map_find (mDynamicSensors t) = known_after (new @ [c])"
    using assms(3-5) in_turn_snoc [OF new(2), of c] by simp_all
  with assms(2) show ?thesis unfolding as_announced_def by blast
qed

lemma step_announced:
  assumes "hal_step K process s l t" and "l \<noteq> RESTART" and "as_announced before s"
  shows "as_announced before t"
proof -
  have inv: "dynamic_inv s" using assms(3) by (simp add: as_announced_def)
  from assms(1,2) show ?thesis
  proof (cases rule: step_dynamic)
    case (connected xs i)
    have "dynamic_inv t" using dynamic_sensors_invariant [OF inv] unfolding connected by blast
    moreover obtain c where "announcements (calls t) = announcements (calls s) @ [c]"
      "map_find (mDynamicSensors t) = announce c (map_find (mDynamicSensors s))" "\<And>m. fits c m"
      using connected_announced unfolding connected by blast
    ultimately show ?thesis by (intro announced_snoc [OF assms(3)])
  next
    case (disconnected hs i)
    have "dynamic_inv t" using dynamic_sensors_invariant [OF inv] unfolding disconnected by blast
    moreover obtain c where "announcements (calls t) = announcements (calls s) @ [c]"
      "map_find (mDynamicSensors t) = announce c (map_find (mDynamicSensors s))"
      "fits c (map_find (mDynamicSensors s))"
      using disconnected_announced [OF inv] unfolding disconnected by blast
    ultimately show ?thesis by (intro announced_snoc [OF assms(3)])
  next
    case other
    then have "mDynamicSensors t = mDynamicSensors s" "announcements (calls t) = announcements (calls s)"
      by (simp_all add: dynamic_view_def)
    with assms(3) show ?thesis by (simp add: as_announced_def dynamic_inv_def)
  qed
qed

lemma run_announced:
  assumes "hal_run K process s ls t" and "RESTART \<notin> set ls" and "as_announced before s"
  shows "as_announced before t"
  using assms
proof (induction rule: run.induct)
  case (some s ls t l u)
  then have "as_announced before t" by simp
  moreover have "l \<noteq> RESTART" using some.prems(1) by auto
  ultimately show ?case by (rule step_announced [OF some.hyps(2), rotated])
qed

lemma initialized_announced:
  assumes "s = snd (initializeCommon K ops env q s0)"
  shows "as_announced (announcements (calls s)) s"
proof -
  obtain hals where "s = (restarted env q (quiet K ops env s0))
      \<lparr>mSubHalList := hals, mCurrentOperationMode := NORMAL\<rparr>"
    using initialized_state assms by blast
  then have "mDynamicSensors s = []" by (simp add: restarted_def)
  then show ?thesis
    by (simp add: as_announced_def dynamic_inv_def sensor_map.filed_empty fun_eq_iff)
qed

subsection \<open>Properties\<close>

text \<open>
  C13: the list of sensors stays, and every sensor in it stays reachable.  After the
  construction from two lists of at most 128 sub-HALs, and whatever calls, posts, turns of
  the threads and initialisations follow, the proxy knows under every handle what the
  description of the list says (the sensors that were reported with a clear first byte, each
  under its packed handle, with direct channel flags for the first sub-HAL that offers them
  only); where the description has nothing, there is nothing, or the default description
  that a look-up left behind.  The owner of the direct channel stays, and a call with a
  handle of the list reaches the sub-HAL that reported the sensor, under its own handle.
\<close>

theorem listed_sensors_stay_reachable:
  assumes "mask_is_first_byte K" and "length hals \<le> 128" and "nothing_known s0"
    and "hals = map SubHalWrapperV2_0 xs @ map SubHalWrapperV2_1 ys"
    and "s = HalProxy_from_lists K ops ai xs ys s0" and "hal_run K process s ls t"
    and "rep = reported ops (s0\<lparr>mSubHalList := hals\<rparr>)"
    and "described = map_of (rev (all_entries K rep (length hals)))"
  shows "(map_find (mSensors t) h = described h
            \<or> described h = None \<and> map_find (mSensors t) h = Some default_sensor_info)
       \<and> mDirectChannelSubHal t = direct_owner K rep (length hals)
       \<and> (described h \<noteq> None \<longrightarrow> (\<exists>i < length hals. \<exists>x \<in> set (rep i).
            h = setSubHalIndex (info_sensorHandle x) (of_nat i)
            \<and> activate K ops h en t = call_sub_hal i (sub_activate ops (info_sensorHandle x) en) t
            \<and> batch K ops h p l t = call_sub_hal i (sub_batch ops (info_sensorHandle x) p l) t
            \<and> flush K ops h t = call_sub_hal i (sub_flush ops (info_sensorHandle x)) t))"
proof -
  let ?s1 = "s0\<lparr>mSubHalList := hals\<rparr>"
  note built = constructed_proxy [OF assms(3) refl assms(4)]
  have s: "s = initializeSensorList K ops ai ?s1" unfolding assms(5) by (rule built(1))
  have list: "map_find (mSensors s) = described"
    "mDirectChannelSubHal s = direct_owner K rep (length hals)"
    using sensor_list_map [OF built(2,3) s] unfolding assms(7,8) built(4) by (auto simp: fun_eq_iff)
  have kept: "listing_kept s t" by (rule run_kept [OF assms(6)])
  have "proxy_typed (length xs + length ys) t"
    by (rule run_typed [OF assms(3,5,6)])
  then have len: "length (mSubHalList t) = length hals"
    by (simp add: proxy_typed_def assms(4))
  have reach: "\<exists>i < length hals. \<exists>x \<in> set (rep i).
      h = setSubHalIndex (info_sensorHandle x) (of_nat i)
      \<and> activate K ops h en t = call_sub_hal i (sub_activate ops (info_sensorHandle x) en) t
      \<and> batch K ops h p l t = call_sub_hal i (sub_batch ops (info_sensorHandle x) p l) t
      \<and> flush K ops h t = call_sub_hal i (sub_flush ops (info_sensorHandle x)) t"
    if some: "described h = Some info" for info
  proof -
    obtain i x where i: "i < length hals" and x: "x \<in> set (rep i)"
      "subHalIndexIsClear K (info_sensorHandle x)" and h: "h = proxy_handle i x"
      using described_origin [OF some [unfolded assms(8)]] by blast
    note r = route [OF assms(1) x(2), of i t, unfolded len, OF i assms(2), folded h]
    have "activate K ops h en t = call_sub_hal i (sub_activate ops (info_sensorHandle x) en) t
      \<and> batch K ops h p l t = call_sub_hal i (sub_batch ops (info_sensorHandle x) p l) t
      \<and> flush K ops h t = call_sub_hal i (sub_flush ops (info_sensorHandle x)) t"
      using r by (simp add: activate_def batch_def flush_def)
    with i x(1) h show ?thesis unfolding proxy_handle_def by blast
  qed
  have "mDirectChannelSubHal t = direct_owner K rep (length hals)"
    and "map_find (mSensors t) h = described h
            \<or> described h = None \<and> map_find (mSensors t) h = Some default_sensor_info"
    using kept list by (simp_all add: listing_kept_def only_adds_defaults_def)
  with reach show ?thesis by (cases "described h") simp_all
qed

text \<open>An example: two sub-HALs, of which the second offers the direct channel.\<close>

definition example_hals :: "sensor_info list sub_hal list" where
  "example_hals = map SubHalWrapperV2_0 [[example_sensor 1 0], [example_sensor 7 0x380]]
     @ map SubHalWrapperV2_1 []"

definition example_reports :: "nat \<Rightarrow> sensor_info list" where
  "example_reports = reported example_ops ((example_proxy [])\<lparr>mSubHalList := example_hals\<rparr>)"

definition example_later :: "(unit, sensor_info list) hal_proxy" where
  "example_later = (snd (initializeCommon example_consts example_ops example_start 8 example_built))
     \<lparr>mThreadsRun := False\<rparr>"

lemma example_reports_at: "example_reports 0 = [example_sensor 1 0]" "example_reports (Suc 0) = [example_sensor 7 0x380]"
  by (simp_all add: example_reports_def reported_def example_hals_def example_ops_def)

lemma example_described:
  "direct_owner example_consts example_reports 2 = Some 1"
  "map_of (rev (all_entries example_consts example_reports 2)) 0x1000007
     = Some ((example_sensor 7 0x380)\<lparr>info_sensorHandle := 0x1000007\<rparr>)"
proof -
  have two: "[0 ..< 2] = [0, 1 :: nat]" by (simp add: upt_rec)
  show owner: "direct_owner example_consts example_reports 2 = Some 1"
    by (simp add: direct_owner_def two example_reports_at offers_direct_def example_sensor_def
        example_consts_def direct_mask_def subHalIndexIsClear_def)
  show "map_of (rev (all_entries example_consts example_reports 2)) 0x1000007
     = Some ((example_sensor 7 0x380)\<lparr>info_sensorHandle := 0x1000007\<rparr>)"
    by (simp add: all_entries_def owner two example_reports_at entries_def listed_def proxy_handle_def
        example_sensor_def SENSOR_TYPE_QTI_WISE_LIGHT_def setSubHalIndex_def kBitsAfterSubHalIndex_def)
qed

theorem listed_sensors_stay_reachable_witness:
  "map_find (mSensors example_later) 0x1000007
     = Some ((example_sensor 7 0x380)\<lparr>info_sensorHandle := 0x1000007\<rparr>)
   \<and> mDirectChannelSubHal example_later = Some 1"
proof -
  have "nothing_known (example_proxy [])"
    by (simp add: nothing_known_def example_proxy_def)
  moreover have "length example_hals = 2" "length example_hals \<le> 128"
    by (simp_all add: example_hals_def)
  ultimately show ?thesis
    using listed_sensors_stay_reachable [OF mask_is_first_byte_example _ _ example_hals_def
        example_built_def example_built_run example_reports_def refl, of "0x1000007"]
      example_described
    by (simp add: example_later_def)
qed


definition example_connected :: "(unit, sensor_info list) hal_proxy" where
  "example_connected = onDynamicSensorsConnected example_consts [example_sensor 3 0] 1 example_started"

definition example_disconnected :: "(unit, sensor_info list) hal_proxy" where
  "example_disconnected = onDynamicSensorsDisconnected example_consts [4, 3] 1 example_connected"

lemma example_dynamic_run:
  "hal_run example_consts Pair example_started [TAU, TAU] example_disconnected"
proof -
  have "hal_step example_consts Pair example_started TAU example_connected"
    unfolding example_connected_def by (rule hal_step.connected)
  moreover have "hal_run example_consts Pair example_connected [TAU] example_disconnected"
    unfolding example_disconnected_def by (rule run_one) (rule hal_step.disconnected)
  ultimately show ?thesis by (rule run_Cons)
qed


end
