(* ===== verification/Wakeup_Events.thy ===== *)
theory Wakeup_Events
  imports Sensor_List_Spec Hal_Proxy_Callback
begin

text \<open>
  The list of sensors and the callbacks together: the number of wake-up events that a callback
  finds by looking into the proxy's list is the number that the sub-HAL's own descriptions of
  its sensors give, so a sub-HAL can know when it has to hold a wake lock.
\<close>

subsection \<open>What the list says about a sensor\<close>

lemma listed_wakeup:
  assumes "WAKE_UP K AND direct_mask K = 0"
  shows "info_flags (listed K owner i x) AND WAKE_UP K = info_flags x AND WAKE_UP K"
proof -
  have "(w AND NOT m) AND k = w AND k" if "k AND m = 0" for w m k :: u32
    using that by (auto simp: bit_eq_iff bit_simps)
  then show ?thesis using assms by (simp add: listed_def)
qed

text \<open>If a sub-HAL reports each handle once, its sensor is found as it was reported.\<close>

lemma listed_in_map:
  assumes "mask_is_first_byte K" and "length (mSubHalList s) \<le> 128"
    and "mSensors s = []" and "mDirectChannelSubHal s = None"
    and "i < length (mSubHalList s)" and "distinct (map info_sensorHandle (reported ops s i))"
    and "x \<in> set (reported ops s i)" and "subHalIndexIsClear K (info_sensorHandle x)"
  obtains owner where
    "map_find (mSensors (initializeSensorList K ops ai s)) (proxy_handle i x) = Some (listed K owner i x)"
proof -
  let ?n = "length (mSubHalList s)" and ?t = "initializeSensorList K ops ai s"
  let ?owner = "direct_owner K (reported ops s) ?n"
  let ?all = "all_entries K (reported ops s) ?n"
  have map: "map_find (mSensors ?t) h = map_of (rev ?all) h" for h
    using sensor_list_map [OF assms(3,4) refl] by blast
  have "(proxy_handle i x, listed K ?owner i x) \<in> set ?all"
    using assms(5,7,8) by (force simp: all_entries_def entries_def)
  then obtain y where y: "map_of (rev ?all) (proxy_handle i x) = Some y"
    by (metis map_of_eq_None_iff option.exhaust fst_conv image_eqI set_rev)
  then have "(proxy_handle i x, y) \<in> set ?all"
    using map_of_SomeD by fastforce
  then obtain j z where z: "j < ?n" "z \<in> set (reported ops s j)" "subHalIndexIsClear K (info_sensorHandle z)"
      "proxy_handle i x = proxy_handle j z" "y = listed K ?owner j z"
    by (auto simp: all_entries_def entries_def)
  have small: "unat (of_nat i :: size_t) = i" "unat (of_nat j :: size_t) = j"
    using assms(2,5) z(1) by simp_all
  then have "info_sensorHandle x = info_sensorHandle z \<and> (of_nat i :: size_t) = of_nat j"
    using z(4) assms(1,2,5,8) z(1,3) handle.set_inject [of K "info_sensorHandle x" "info_sensorHandle z"]
    by (simp add: proxy_handle_def)
  then have "i = j" and "info_sensorHandle x = info_sensorHandle z"
    using small by (metis, blast)
  then have "z = x"
    using assms(6,7) z(2) by (metis distinct_map inj_onD)
  with y z(5) \<open>i = j\<close> show thesis
    by (intro that [of ?owner]) (simp add: map)
qed

subsection \<open>What the callback counts\<close>

text \<open>A wake-up event, by the descriptions of the sub-HAL.\<close>

definition wakes :: "hal_consts \<Rightarrow> sensor_info list \<Rightarrow> event \<Rightarrow> bool" where
  "wakes K xs e \<longleftrightarrow>
     list_ex (\<lambda>x. info_sensorHandle x = sensorHandle e \<and> info_flags x AND WAKE_UP K \<noteq> 0) xs"

lemma wakes_iff:
  assumes "distinct (map info_sensorHandle xs)" and "x \<in> set xs" and "info_sensorHandle x = sensorHandle e"
  shows "wakes K xs e \<longleftrightarrow> info_flags x AND WAKE_UP K \<noteq> 0"
proof -
  have "inj_on info_sensorHandle (set xs)" using assms(1) by (simp add: distinct_map)
  then have "y = x" if "y \<in> set xs" "info_sensorHandle y = sensorHandle e" for y
    using assms(2,3) that by (simp add: inj_on_def)
  with assms(2,3) show ?thesis unfolding wakes_def list_ex_iff by blast
qed

text \<open>A \<open>getSensorInfo\<close> that hands out the entry of the list, where there is one.\<close>

definition hands_out_entries :: "(i32 \<Rightarrow> ('a, 'r) hal_proxy \<Rightarrow> sensor_info \<times> ('a, 'r) hal_proxy)
    \<Rightarrow> ('a, 'r) hal_proxy \<Rightarrow> bool" where
  "hands_out_entries gsi t \<longleftrightarrow>
     (\<forall>h info. map_find (mSensors t) h = Some info \<longrightarrow> gsi h t = (info, t))"

lemma wakeups_counted:
  assumes "mask_is_first_byte K" and "WAKE_UP K AND direct_mask K = 0"
    and "length (mSubHalList s) \<le> 128" and "mSensors s = []" and "mDirectChannelSubHal s = None"
    and "t = initializeSensorList K ops ai s" and "hands_out_entries gsi t"
    and "i < length (mSubHalList s)" and "distinct (map info_sensorHandle (reported ops s i))"
    and events: "\<forall>e\<in>set es. subHalIndexIsClear K (sensorHandle e)
        \<and> sensorHandle e \<in> info_sensorHandle ` set (reported ops s i)"
  shows "processEvents K (of_nat i) gsi es t
    = ((map (tagged K (of_nat i)) es, of_nat (length (filter (wakes K (reported ops s i)) es))), t)"
proof -
  have i: "i < 128" using assms(3,8) by simp
  define f where "f e = fst (gsi (setSubHalIndex (sensorHandle e) (of_nat i)) t)" for e :: event
  have f: "gsi (setSubHalIndex (sensorHandle e) (of_nat i)) t = (f e, t)
      \<and> (info_flags (f e) AND WAKE_UP K \<noteq> 0 \<longleftrightarrow> wakes K (reported ops s i) e)"
    if e: "e \<in> set es" for e
  proof -
    obtain x where x: "x \<in> set (reported ops s i)" "info_sensorHandle x = sensorHandle e"
      and clear: "subHalIndexIsClear K (info_sensorHandle x)"
      using events e by force
    obtain owner where "map_find (mSensors t) (proxy_handle i x) = Some (listed K owner i x)"
      using listed_in_map [OF assms(1,3,4,5,8,9) x(1) clear, of ai] unfolding assms(6) by blast
    then have "gsi (setSubHalIndex (sensorHandle e) (of_nat i)) t = (listed K owner i x, t)"
      using assms(7) x(2) by (simp add: hands_out_entries_def proxy_handle_def)
    then show ?thesis
      using listed_wakeup [OF assms(2)] wakes_iff [OF assms(9) x] by (simp add: f_def)
  qed
  have "processEvents K (of_nat i) gsi es t
      = ((map (tagged K (of_nat i)) es,
          of_nat (length (filter (\<lambda>e. info_flags (f e) AND WAKE_UP K \<noteq> 0) es))), t)"
    using process_loop_at [of es gsi "of_nat i" t f K 0] f i
    by (simp add: processEvents_def scast_of_nat_small)
  moreover have "filter (\<lambda>e. info_flags (f e) AND WAKE_UP K \<noteq> 0) es = filter (wakes K (reported ops s i)) es"
    using f by (intro filter_cong) simp_all
  ultimately show ?thesis by simp
qed

subsection \<open>Properties\<close>

text \<open>
  C8: a sub-HAL can keep its part of the contract.  After the constructor has collected the
  sensors of at most 128 sub-HALs, a sub-HAL that reports each handle once, posts events of its
  own sensors only, and holds its scoped wake lock exactly if one of them is by its own
  description a wake-up sensor, never runs into the assertions of \<open>postEvents\<close>: the events reach
  the proxy tagged, in their order, and with the right number of wake-up events.
\<close>

theorem matching_lock_never_aborts:
  assumes "mask_is_first_byte K" and "WAKE_UP K AND direct_mask K = 0"
    and "length (mSubHalList s) \<le> 128" and "mSensors s = []" and "mDirectChannelSubHal s = None"
    and "t = initializeSensorList K ops ai s" and "hands_out_entries gsi t"
    and "i < length (mSubHalList s)" and "distinct (map info_sensorHandle (reported ops s i))"
    and "\<forall>e\<in>set es. subHalIndexIsClear K (sensorHandle e)
        \<and> sensorHandle e \<in> info_sensorHandle ` set (reported ops s i)"
    and "vector_ok es" and "es \<noteq> []" and "running t"
    and "locked \<longleftrightarrow> (\<exists>e\<in>set es. wakes K (reported ops s i) e)"
  shows "postEvents K (of_nat i) running gsi post assertions es locked t
    = Some (post (map (tagged K (of_nat i)) es)
        (of_nat (length (filter (wakes K (reported ops s i)) es))) locked t)"
proof -
  let ?n = "length (filter (wakes K (reported ops s i)) es)"
  have "?n \<le> length es" by (rule length_filter_le)
  also have "length es < 2 ^ 64" using assms(11) by (simp add: vector_ok_def)
  finally have "?n < 2 ^ 64" .
  then have "0 < (of_nat ?n :: size_t) \<longleftrightarrow> 0 < ?n"
    by (simp add: word_less_nat_alt)
  also have "0 < ?n \<longleftrightarrow> (\<exists>e\<in>set es. wakes K (reported ops s i) e)"
    by (simp add: filter_empty_conv)
  finally have "lock_matches (of_nat ?n) locked"
    using assms(14) by (simp add: lock_matches_def)
  then show ?thesis
    using assms(12,13) wakeups_counted [OF assms(1-10)] by (simp add: postEvents_def)
qed

definition look_up :: "i32 \<Rightarrow> ('a, 'r) hal_proxy \<Rightarrow> sensor_info \<times> ('a, 'r) hal_proxy" where
  "look_up h s = (case map_find (mSensors s) h of Some info \<Rightarrow> info | None \<Rightarrow> default_sensor_info, s)"

definition count_only :: "event list \<Rightarrow> size_t \<Rightarrow> bool \<Rightarrow> ('a, 'r) hal_proxy \<Rightarrow> ('a, 'r) hal_proxy" where
  "count_only es n locked s = s\<lparr>mWakelockRefCount := n\<rparr>"

theorem matching_lock_never_aborts_witness:
  "postEvents example_consts 1 (\<lambda>_. True) look_up count_only True [example_event 7] True
     (initializeSensorList example_consts example_ops id
       (example_proxy [[example_sensor 1 0], [example_sensor 7 1]]))
   = Some ((initializeSensorList example_consts example_ops id
       (example_proxy [[example_sensor 1 0], [example_sensor 7 1]]))\<lparr>mWakelockRefCount := 1\<rparr>)"
proof -
  let ?s = "example_proxy [[example_sensor 1 0], [example_sensor 7 1]]"
  let ?t = "initializeSensorList example_consts example_ops id ?s"
  have reported: "reported example_ops ?s 1 = [example_sensor 7 1]"
    by (simp add: reported_def example_ops_def example_proxy_def)
  have wakes: "wakes example_consts [example_sensor 7 1] (example_event 7)"
    by (simp add: wakes_def example_sensor_def example_event_def example_consts_def)
  have "postEvents example_consts (of_nat 1) (\<lambda>_. True) look_up count_only True [example_event 7] True ?t
      = Some (count_only (map (tagged example_consts (of_nat 1)) [example_event 7])
          (of_nat (length (filter (wakes example_consts (reported example_ops ?s 1)) [example_event 7]))) True ?t)"
  proof (rule matching_lock_never_aborts [OF mask_is_first_byte_example, where s = ?s and ops = example_ops and ai = id])
    show "WAKE_UP example_consts AND direct_mask example_consts = 0"
      by (simp add: direct_mask_def example_consts_def)
    show "hands_out_entries look_up ?t"
      by (simp add: hands_out_entries_def look_up_def)
    show "\<forall>e\<in>set [example_event 7]. subHalIndexIsClear example_consts (sensorHandle e)
        \<and> sensorHandle e \<in> info_sensorHandle ` set (reported example_ops ?s 1)"
      unfolding reported by (simp add: example_event_def example_sensor_def)
    show "True \<longleftrightarrow> (\<exists>e\<in>set [example_event 7]. wakes example_consts (reported example_ops ?s 1) e)"
      unfolding reported using wakes by simp
  qed (simp_all add: example_proxy_def vector_ok_def reported_def example_ops_def)
  then show ?thesis
    unfolding reported using wakes by (simp add: count_only_def)
qed

end
