(* ===== verification/Sub_Hal_Loading.thy ===== *)
theory Sub_Hal_Loading
  imports Sensor_Registry
begin

text \<open>
  The default constructor: the words of the two configuration files name the libraries, and
  each library that can be opened and reports the version its symbol stands for becomes a
  sub-HAL.  Also the two listings of the sensors that were found.
\<close>

subsection \<open>Words\<close>

definition is_word :: "string \<Rightarrow> bool" where
  "is_word w \<longleftrightarrow> w \<noteq> [] \<and> (\<forall>c \<in> set w. \<not> is_space c)"

lemma words_from_word:
  "\<forall>c \<in> set w. \<not> is_space c \<Longrightarrow> words_from acc (w @ cs) = words_from (rev w @ acc) cs"
  by (induction w arbitrary: acc) simp_all

lemma words_from_spaces: "\<forall>c \<in> set sp. is_space c \<Longrightarrow> words_from [] (sp @ cs) = words_from [] cs"
  by (induction sp) simp_all

text \<open>A text: words, each with the white space that follows it.\<close>

definition is_gap :: "string \<Rightarrow> bool" where
  "is_gap sp \<longleftrightarrow> sp \<noteq> [] \<and> (\<forall>c \<in> set sp. is_space c)"

definition text_of :: "(string \<times> string) list \<Rightarrow> string" where
  "text_of ps = concat (map (\<lambda>(w, gap). w @ gap) ps)"

lemma words_from_gap:
  assumes "is_word w" and "is_gap gap"
  shows "words_from [] (w @ gap @ cs) = w # words_from [] cs"
proof -
  obtain c sp where gap: "gap = c # sp" and "is_space c" and "\<forall>c \<in> set sp. is_space c"
    using assms(2) by (cases gap) (simp_all add: is_gap_def)
  then show ?thesis
    using assms(1) words_from_word [of w "[]" "gap @ cs"]
    by (simp add: is_word_def words_from_spaces)
qed

lemma words_of_text:
  assumes "\<forall>(w, gap) \<in> set ps. is_word w \<and> is_gap gap" and "end_word = [] \<or> is_word end_word"
  shows "words_from [] (text_of ps @ end_word) = map fst ps @ (if end_word = [] then [] else [end_word])"
  using assms(1)
proof (induction ps)
  case Nil
  then show ?case
    using assms(2) words_from_word [of end_word "[]" "[]"] by (auto simp: text_of_def is_word_def)
next
  case (Cons p ps)
  then show ?case by (cases p) (simp add: text_of_def words_from_gap)
qed

lemma words_of_lines:
  assumes "is_space c" and "\<forall>w \<in> set ws. is_word w"
  shows "words_from [] (concat (map (\<lambda>w. w @ [c]) ws)) = ws"
  using words_of_text [of "map (\<lambda>w. (w, [c])) ws" "[]"] assms
  by (auto simp: text_of_def is_gap_def comp_def)

subsection \<open>Loading\<close>

lemma opened_library:
  assumes "getHandleForSubHalSharedObject ld file = Some lib"
  shows "dlopen ld file = Some lib
       \<or> dlopen ld (''/vendor/lib64/hw/'' @ file) = Some lib
       \<or> dlopen ld (''/odm/lib64/hw/'' @ file) = Some lib"
proof (cases "dlopen ld file")
  case None
  then show ?thesis using assms
    by (cases "dlopen ld (''/vendor/lib64/hw/'' @ file)")
      (simp_all add: getHandleForSubHalSharedObject_def)
next
  case (Some x)
  then show ?thesis using assms by (simp add: getHandleForSubHalSharedObject_def)
qed

lemma load_fold:
  "fold (\<lambda>file s. s\<lparr>mSubHalList := mSubHalList s @ load_sub_hal K ld file\<rparr>) files s
     = s\<lparr>mSubHalList := mSubHalList s @ concat (map (load_sub_hal K ld) files)\<rparr>"
  by (induction files arbitrary: s) simp_all

definition configured :: "string option \<Rightarrow> string list" where
  "configured contents = (case contents of None \<Rightarrow> [] | Some cs \<Rightarrow> words_from [] cs)"

lemma load_file:
  "initializeSubHalListFromConfigFile K ld contents s
     = s\<lparr>mSubHalList := mSubHalList s @ concat (map (load_sub_hal K ld) (configured contents))\<rparr>"
  by (simp add: initializeSubHalListFromConfigFile_def load_fold configured_def split: option.split)

subsection \<open>Properties\<close>

text \<open>
  The default constructor loads what the files name.  The sub-HALs are, in order, those
  of the libraries named in the vendor's file and then in the ODM's; a file with one library
  on each line is read as the list of these names; and a file that cannot be opened counts
  as empty.
\<close>

lemma configured_libraries_loaded:
  assumes "nothing_known s"
    and "read_file ''/vendor/etc/sensors/hals.conf'' = Some (concat (map (\<lambda>w. w @ [CHR 0x0A]) ws))"
    and "\<forall>w \<in> set ws. is_word w"
    and "read_file ''/odm/etc/sensors/hals.conf'' = None"
  shows "HalProxy_from_config_files K ops als_init ld read_file s
       = initializeSensorList K ops als_init
           (s\<lparr>mSubHalList := concat (map (load_sub_hal K ld) ws)\<rparr>)"
proof -
  have "configured (read_file ''/vendor/etc/sensors/hals.conf'') = ws"
    using assms(3) by (simp add: assms(2) configured_def words_of_lines is_space_def)
  then show ?thesis
    using assms(1)
    by (simp add: HalProxy_from_config_files_def HalProxy_init_def load_file nothing_known_def assms(4) configured_def)
qed

definition example_linker :: "(string, sensor_info list) linker" where
  "example_linker =
     \<lparr>dlopen = (\<lambda>path. if path = ''/vendor/lib64/hw/sensors.ssc.so'' then Some path else None),
      sensorsHalGetSubHal = (\<lambda>l. None),
      sensorsHalGetSubHal_2_1 = (\<lambda>l. Some (33619968, []))\<rparr>"

text \<open>
  C30: a configuration file is read as it is meant.  Whatever white space separates the names
  and precedes the first, and whether or not the last line is ended, the sub-HALs that are
  added are those of the named libraries, in the order of the names.
\<close>

theorem config_file_roundtrip:
  assumes "\<forall>(w, gap) \<in> set ps. is_word w \<and> is_gap gap" and "\<forall>c \<in> set lead. is_space c"
    and "end_word = [] \<or> is_word end_word"
  shows "mSubHalList (initializeSubHalListFromConfigFile K ld (Some (lead @ text_of ps @ end_word)) s)
       = mSubHalList s @ concat (map (load_sub_hal K ld) (map fst ps @ (if end_word = [] then [] else [end_word])))"
  using words_of_text [OF assms(1,3)]
  by (simp add: load_file configured_def words_from_spaces [OF assms(2)])

theorem config_file_roundtrip_witness:
  "mSubHalList (initializeSubHalListFromConfigFile example_consts example_linker
      (Some ('' '' @ text_of [(''missing.so'', [CHR 0x0A, CHR 0x0A])] @ ''sensors.ssc.so'')) (example_proxy []))
     = [SubHalWrapperV2_1 []]"
proof -
  have "\<forall>(w, gap) \<in> set [(''missing.so'', [CHR 0x0A, CHR 0x0A])]. is_word w \<and> is_gap gap"
    and "\<forall>c \<in> set '' ''. is_space c" and "''sensors.ssc.so'' = [] \<or> is_word ''sensors.ssc.so''"
    by (simp_all add: is_word_def is_gap_def is_space_def)
  from config_file_roundtrip [OF this, of example_consts example_linker "example_proxy []"]
  show ?thesis
    by (simp add: example_proxy_def load_sub_hal_def getHandleForSubHalSharedObject_def
        example_linker_def example_consts_def)
qed

text \<open>
  C31: no library of the wrong version is used.  A sub-HAL that is loaded comes from a library
  found in one of the three places, and reports the version of the symbol it was obtained
  from; the 2.1 symbol is only tried when the 2.0 symbol is missing.
\<close>

theorem only_matching_versions_loaded:
  assumes "h \<in> set (load_sub_hal K ld file)"
  shows "\<exists>lib. (dlopen ld file = Some lib
            \<or> dlopen ld (''/vendor/lib64/hw/'' @ file) = Some lib
            \<or> dlopen ld (''/odm/lib64/hw/'' @ file) = Some lib)
       \<and> (\<exists>r. h = SubHalWrapperV2_0 r
               \<and> sensorsHalGetSubHal ld lib = Some (SUB_HAL_2_0_VERSION K, r)
            \<or> h = SubHalWrapperV2_1 r \<and> sensorsHalGetSubHal ld lib = None
               \<and> sensorsHalGetSubHal_2_1 ld lib = Some (SUB_HAL_2_1_VERSION K, r))"
proof -
  obtain lib where lib: "getHandleForSubHalSharedObject ld file = Some lib"
    using assms by (cases "getHandleForSubHalSharedObject ld file") (simp_all add: load_sub_hal_def)
  have "\<exists>r. h = SubHalWrapperV2_0 r
            \<and> sensorsHalGetSubHal ld lib = Some (SUB_HAL_2_0_VERSION K, r)
         \<or> h = SubHalWrapperV2_1 r \<and> sensorsHalGetSubHal ld lib = None
            \<and> sensorsHalGetSubHal_2_1 ld lib = Some (SUB_HAL_2_1_VERSION K, r)"
    using assms by (simp add: load_sub_hal_def lib split: option.splits prod.splits if_splits)
  then show ?thesis using opened_library [OF lib] by blast
qed

theorem only_matching_versions_loaded_witness:
  "\<exists>lib. (dlopen example_linker ''sensors.ssc.so'' = Some lib
       \<or> dlopen example_linker (''/vendor/lib64/hw/'' @ ''sensors.ssc.so'') = Some lib
       \<or> dlopen example_linker (''/odm/lib64/hw/'' @ ''sensors.ssc.so'') = Some lib)
     \<and> (\<exists>r. SubHalWrapperV2_1 [] = SubHalWrapperV2_0 r
             \<and> sensorsHalGetSubHal example_linker lib = Some (SUB_HAL_2_0_VERSION example_consts, r)
          \<or> SubHalWrapperV2_1 [] = SubHalWrapperV2_1 r
             \<and> sensorsHalGetSubHal example_linker lib = None
             \<and> sensorsHalGetSubHal_2_1 example_linker lib
                 = Some (SUB_HAL_2_1_VERSION example_consts, r))"
  by (rule only_matching_versions_loaded)
    (simp add: load_sub_hal_def getHandleForSubHalSharedObject_def example_linker_def
      example_consts_def)

text \<open>
  The listing of the 2.0 interface is the listing of the 2.1 interface without the hinge
  angle sensors, in the same order; and after registration both list the handles in
  ascending order as signed numbers, none twice.
\<close>

lemma listings_agree_and_sorted:
  assumes "LIGHT K \<noteq> SENSOR_TYPE_QTI_WISE_LIGHT" and "mSensors s = []"
    and "t = initializeSensorList K ops als_init s"
  shows "getSensorsList K conv t
         = map conv (filter (\<lambda>x. info_type x \<noteq> HINGE_ANGLE K) (getSensorsList_2_1 t))
       \<and> sorted_wrt (\<lambda>a b. sint (info_sensorHandle a) < sint (info_sensorHandle b))
           (getSensorsList_2_1 t)"
proof -
  have inv: "registry_inv K (reported ops s) (length (mSubHalList s)) t"
    unfolding assms(3) by (rule registry_inv_init [OF assms(1,2)])
  have filed: "\<forall>(h, x) \<in> set (mSensors t). info_sensorHandle x = h"
    using inv by (auto simp: registry_inv_def simp flip: find_iff_in)
  have "map info_sensorHandle (map snd m) = map fst m"
    if "\<forall>(h, x) \<in> set m. info_sensorHandle x = h" for m :: "sensor_info i32_map"
    using that by (induction m) auto
  from this [OF filed] have "map info_sensorHandle (getSensorsList_2_1 t) = map_keys (mSensors t)"
    by (simp add: getSensorsList_2_1_def map_keys_def)
  moreover have "sorted_wrt (\<lambda>a b. sint a < sint b) (map_keys (mSensors t))"
    using inv by (simp add: registry_inv_def map_sorted_def)
  ultimately have "sorted_wrt (\<lambda>a b. sint a < sint b) (map info_sensorHandle (getSensorsList_2_1 t))"
    by simp
  then show ?thesis
    by (simp add: sorted_wrt_map getSensorsList_def getSensorsList_2_1_def)
qed

end
