(* ===== verification/Light_Sensor.thy ===== *)
theory Light_Sensor
  imports Light_Correction
begin

text \<open>
  The properties of the light sensor's correction: its rate, the range of its values, when it
  looks at the screen again, and what its initialisation does.
\<close>

subsection \<open>Clamping\<close>

lemma fmax_not_less: "\<not> fless (fmax a b) b"
  by (simp add: fmax_def)

lemma fmin_not_less: "\<not> fless b (fmin a b)"
  by (simp add: fmin_def)

lemma clamp_not_above: "\<not> fless (fmax h l) (fmax (fmin v h) l)"
  by (cases v; cases h; cases l) (auto simp: fmax_def fmin_def)

subsection \<open>Time\<close>

lemma throttle_times:
  assumes "throttle now b st = (st', fast)" and "last_update st \<noteq> 0"
  shows "if fast then last_update st' = last_update st
         else last_update st' = now \<and> last_update st + 100000000 \<le> now"
  using assms by (auto simp: throttle_def Let_def split: if_splits)

lemma throttle_first: "last_update st = 0 \<Longrightarrow>
    throttle now b st = (st\<lparr>last_update := now, last_forced_update := now\<rparr>, False)"
  by (simp add: throttle_def)

lemma als_process_last_update:
  "last_update (state (snd (als_process pow env e w)))
     = last_update (fst (throttle (als_now env) (to_float (get (file_brightness env) (Fin 0))) (state w)))"
proof (cases rule: als_process_cases [where env = env and w = w and e = e and pow = pow])
  case (corrected x v st')
  then show ?thesis
    using correct_value_frame(1) [of pow "conf w" "hysteresis_ranges w"
        "to_float (get (file_brightness env) (Fin 0))" x "u_scalar (remove_bias (conf w) e)"
        "u_data2 (remove_bias (conf w) e)"
        "fst (throttle (als_now env) (to_float (get (file_brightness env) (Fin 0))) (state w))"]
    by simp
qed simp_all

lemma kept_not_too_fast:
  assumes "sensorHandle (fst (als_process pow env e w)) \<noteq> 0"
  shows "\<not> snd (throttle (als_now env) (to_float (get (file_brightness env) (Fin 0))) (state w))"
  using assms by (cases rule: als_process_cases [where env = env and w = w and e = e and pow = pow])
    simp_all

lemma kept_last_update:
  assumes "sensorHandle (fst (als_process pow env e w)) \<noteq> 0"
  shows "last_update (state (snd (als_process pow env e w))) = als_now env"
  using kept_not_too_fast [OF assms] by (auto simp: als_process_last_update throttle_def Let_def)

lemma kept_not_forced:
  assumes "sensorHandle (fst (als_process pow env e w)) \<noteq> 0"
  shows "\<not> force_update (state (snd (als_process pow env e w)))"
  using assms
proof (cases rule: als_process_cases [where env = env and w = w and e = e and pow = pow])
  case (corrected x v st')
  then have "\<not> force_update st'" using correct_value_frame(3) by (metis snd_conv)
  then show ?thesis using corrected(6) by simp
next
  case cached
  then show ?thesis by (simp add: update_needed_def Let_def)
qed simp_all

text \<open>The times of the events that are not dropped.\<close>

fun accepted_times :: "(fl \<Rightarrow> fl \<Rightarrow> fl) \<Rightarrow> (als_env \<times> event) list \<Rightarrow> als_statics \<Rightarrow> int list" where
  "accepted_times pow [] w = []"
| "accepted_times pow ((env, e) # xs) w =
     (if sensorHandle (fst (als_process pow env e w)) \<noteq> 0 then [als_now env] else [])
     @ accepted_times pow xs (snd (als_process pow env e w))"

lemma accepted_spaced:
  assumes "\<forall>(env, e) \<in> set xs. 0 < als_now env"
  shows "sorted_wrt (\<lambda>a b. a + 100000000 \<le> b) (accepted_times pow xs w)
       \<and> (last_update (state w) \<noteq> 0 \<longrightarrow>
            (\<forall>t \<in> set (accepted_times pow xs w). last_update (state w) + 100000000 \<le> t))"
  using assms
proof (induction xs arbitrary: w)
  case (Cons x xs)
  obtain env e where x: "x = (env, e)" by (cases x)
  let ?b = "to_float (get (file_brightness env) (Fin 0))"
  let ?w = "snd (als_process pow env e w)"
  obtain st fast where t: "throttle (als_now env) ?b (state w) = (st, fast)" by fastforce
  have lu: "last_update (state ?w) = last_update st"
    using als_process_last_update [of pow env e w] t by simp
  have pos: "0 < als_now env" using Cons.prems by (simp add: x)
  have kept: "sensorHandle (fst (als_process pow env e w)) \<noteq> 0 \<Longrightarrow> \<not> fast"
    using kept_not_too_fast [of pow env e w] t by simp
  have IH: "sorted_wrt (\<lambda>a b. a + 100000000 \<le> b) (accepted_times pow xs ?w)"
    "last_update st \<noteq> 0 \<Longrightarrow>
       \<forall>t \<in> set (accepted_times pow xs ?w). last_update st + 100000000 \<le> t"
    using Cons.IH [of ?w] Cons.prems by (simp_all add: lu)
  show ?case
  proof (cases "last_update (state w) = 0")
    case True
    then have "last_update st = als_now env"
      using t by (auto simp: throttle_first)
    with IH pos True show ?thesis by (auto simp: x)
  next
    case False
    with throttle_times [OF t] have
      "if fast then last_update st = last_update (state w)
       else last_update st = als_now env \<and> last_update (state w) + 100000000 \<le> als_now env"
      by simp
    with IH pos False kept show ?thesis by (fastforce simp: x split: if_splits)
  qed
qed simp

subsection \<open>Values\<close>

lemma correct_value_not_negative:
  assumes "\<not> fless (last_corrected_value st) (Fin 0)"
  shows "\<not> fless (fst (correct_value pow c rs b x v d st)) (Fin 0)"
  using assms to_float_not_negative [OF fmax_not_less]
  by (simp add: correct_value_def Let_def case_prod_unfold)

lemma als_process_value:
  assumes "sensorHandle (fst (als_process pow env e w)) \<noteq> 0"
  shows "u_scalar (fst (als_process pow env e w))
       = last_corrected_value (state (snd (als_process pow env e w)))"
  using assms
proof (cases rule: als_process_cases [where env = env and w = w and e = e and pow = pow])
  case (corrected x v st')
  then show ?thesis
    using correct_value_frame(4) [of pow "conf w" "hysteresis_ranges w"
        "to_float (get (file_brightness env) (Fin 0))" x "u_scalar (remove_bias (conf w) e)"
        "u_data2 (remove_bias (conf w) e)"
        "fst (throttle (als_now env) (to_float (get (file_brightness env) (Fin 0))) (state w))"]
    by simp
qed simp_all

lemma last_value_not_negative:
  assumes "\<not> fless (last_corrected_value (state w)) (Fin 0)"
  shows "\<not> fless (last_corrected_value (state (snd (als_process pow env e w)))) (Fin 0)"
  using assms
proof (cases rule: als_process_cases [where env = env and w = w and e = e and pow = pow])
  case (corrected x v st')
  let ?st = "fst (throttle (als_now env) (to_float (get (file_brightness env) (Fin 0))) (state w))"
  have "last_corrected_value st' = v"
    using corrected(5) correct_value_frame(4) by (metis fst_conv snd_conv)
  moreover have "\<not> fless v (Fin 0)"
    using correct_value_not_negative [of ?st] corrected(5) assms
    by (metis fst_conv throttle_frame(3))
  ultimately show ?thesis using corrected(6) by simp
qed simp_all

lemma all_values_not_negative:
  assumes "\<not> fless (last_corrected_value (state w)) (Fin 0)"
  shows "\<forall>e' \<in> set (fst (process_all pow xs w)).
      sensorHandle e' \<noteq> 0 \<longrightarrow> \<not> fless (u_scalar e') (Fin 0)"
  using assms
proof (induction xs arbitrary: w)
  case (Cons x xs)
  obtain env e where x: "x = (env, e)" by (cases x)
  let ?w = "snd (als_process pow env e w)"
  have "\<not> fless (last_corrected_value (state ?w)) (Fin 0)"
    using Cons.prems by (rule last_value_not_negative)
  with Cons.IH [of ?w] als_process_value [of pow env e w] show ?case
    by (auto simp: x Let_def case_prod_unfold)
qed simp

subsection \<open>Ranges\<close>

definition range_for :: "hysteresis_range list \<Rightarrow> fl \<Rightarrow> nat \<Rightarrow> bool" where
  "range_for ranges v i \<longleftrightarrow> i < length ranges \<and> fle v (middle (ranges ! i))
     \<and> (\<forall>j < i. \<not> fle v (middle (ranges ! j)))"

lemma middles_scale:
  "map middle (scale_ranges c ranges) = map middle ranges"
proof (cases ranges)
  case (Cons r rs)
  then show ?thesis by (simp add: scale_ranges_def Let_def comp_def)
qed (simp add: scale_ranges_def)

lemma middles_init: "map middle (hysteresis_ranges (als_init env w)) = map middle (hysteresis_ranges w)"
  by (simp add: als_init_def Let_def case_prod_unfold middles_scale)

lemma ranges_init: "hysteresis_ranges (als_init env w)
    = scale_ranges (conf (als_init env w)) (hysteresis_ranges w)"
  by (simp add: als_init_def Let_def case_prod_unfold)

lemma find_range:
  assumes "range_for ranges v i"
  shows "find (\<lambda>r. fle v (middle r)) ranges = Some (ranges ! i)"
  using assms by (auto simp: range_for_def find_Some_iff)

lemma unbounded_range:
  assumes "ranges \<noteq> []" and "middle (last ranges) = PInf" and "v \<noteq> NaN"
  shows "\<exists>i. range_for ranges v i"
proof -
  let ?P = "\<lambda>i. i < length ranges \<and> fle v (middle (ranges ! i))"
  have "?P (length ranges - 1)"
    using assms by (cases v) (simp_all add: last_conv_nth)
  then have "range_for ranges v (LEAST i. ?P i)"
    unfolding range_for_def using LeastI [of ?P] not_less_Least [of _ ?P]
    by (metis (no_types, lifting) order_less_trans)
  then show ?thesis by blast
qed

subsection \<open>The gain\<close>

lemma init_lux_frame [simp]:
  "sensor_inverse_gain (snd (init_lux env i p)) = sensor_inverse_gain (snd p)"
  "calib_gain (snd (init_lux env i p)) = calib_gain (snd p)"
  by (simp_all add: init_lux_def Let_def case_prod_unfold)

lemma init_lux_fold [simp]:
  "sensor_inverse_gain (snd (fold (init_lux env) is p)) = sensor_inverse_gain (snd p)"
  "calib_gain (snd (fold (init_lux env) is p)) = calib_gain (snd p)"
  by (induction "is" arbitrary: p) simp_all

definition gain_of :: "als_config \<Rightarrow> fl" where
  "gain_of c = f32_mul (calib_gain c) (sensor_inverse_gain c ! 0)"

lemma length_extract [simp]: "length (extract_fields xs fs) = length xs"
  by (induction xs fs rule: extract_fields.induct) simp_all

lemma init_gain_length [simp]:
  "length (sensor_inverse_gain (conf (als_init env w))) = length (sensor_inverse_gain (conf w))"
  by (simp add: als_init_def init_gains_def init_properties_def Let_def case_prod_unfold)

text \<open>With both calibration files present, they alone decide the gain.\<close>

lemma gain_init:
  assumes "sensor_inverse_gain (conf w) \<noteq> []"
    and "to_float (get (file_fields env (ALS_CALI_DIR @ ''row_coe'')) (Fin 0)) \<noteq> Fin 0"
  shows "gain_of (conf (als_init env w))
      = f32_mul (calib_gain (init_gains env als_config_initially))
          (to_float (f64_div (to_float (get (file_fields env (ALS_CALI_DIR @ ''row_coe'')) (Fin 0))) (Fin 1000)))"
proof -
  have "length (extract_fields (sensor_inverse_gain (conf w)) fs) \<noteq> 0" for fs
    using assms(1) by simp
  then show ?thesis
    using assms(2)
    by (simp add: als_init_def init_gains_def init_properties_def gain_of_def Let_def
        case_prod_unfold)
qed

lemma scale_other:
  "0 < i \<Longrightarrow> i < length ranges \<Longrightarrow>
     scale_ranges c ranges ! i = (ranges ! i)\<lparr>range_min := f32_div (range_min (ranges ! i)) (gain_of c),
        range_max := f32_div (range_max (ranges ! i)) (gain_of c)\<rparr>"
  by (simp add: scale_ranges_def gain_of_def Let_def)

lemma length_scale [simp]: "length (scale_ranges c ranges) = length ranges"
  by (simp add: scale_ranges_def Let_def)

end
