(* ===== verification/Light_Properties.thy ===== *)
theory Light_Properties
  imports Light_Sensor Sensor_Registry
begin

text \<open>
  The properties of the light sensor's correction and, since registering a light sensor runs
  its initialisation, of both together.
\<close>

subsection \<open>How often the initialisation runs\<close>

definition is_light_sensor :: "hal_consts \<Rightarrow> sensor_info \<Rightarrow> bool" where
  "is_light_sensor K x \<longleftrightarrow>
     subHalIndexIsClear K (info_sensorHandle x) \<and> info_type x = SENSOR_TYPE_QTI_WISE_LIGHT"

definition light_sensors :: "hal_consts \<Rightarrow> (nat \<Rightarrow> sensor_info list) \<Rightarrow> nat \<Rightarrow> nat" where
  "light_sensors K rep n = length (filter (is_light_sensor K) (concat (map rep [0 ..< n])))"

lemma setDirect_als [simp]: "als_world (snd (setDirectChannelFlags K x i s)) = als_world s"
  by (simp add: setDirectChannelFlags_def Let_def)

lemma register_sensor_als:
  "als_world (register_sensor K ai i x s)
     = (if is_light_sensor K x then ai (als_world s) else als_world s)"
  by (simp add: register_sensor_def is_light_sensor_def Let_def case_prod_unfold)

lemma register_fold_als:
  "als_world (fold (register_sensor K ai i) xs s)
     = (ai ^^ length (filter (is_light_sensor K) xs)) (als_world s)"
  by (induction xs arbitrary: s) (simp_all add: register_sensor_als funpow_swap1)

lemma call_sub_hal_als [simp]: "als_world (snd (call_sub_hal i f s)) = als_world s"
  by (simp add: call_sub_hal_def case_prod_unfold Let_def)

lemma register_upto_als:
  "n \<le> length (mSubHalList s) \<Longrightarrow>
     als_world (fold (register_sub_hal K ops ai) [0 ..< n] s)
       = (ai ^^ light_sensors K (reported ops s) n) (als_world s)"
  by (induction n)
    (simp_all add: register_sub_hal_fold register_fold_als light_sensors_def add.commute funpow_add)

subsection \<open>Properties\<close>

definition no_pow :: "fl \<Rightarrow> fl \<Rightarrow> fl" where
  "no_pow x y = Fin 0"

definition light_event :: "fl \<Rightarrow> event" where
  "light_event v =
     \<lparr>sensorHandle = 1, sensorType = SENSOR_TYPE_QTI_WISE_LIGHT, timestamp = 100,
      u_scalar = v, u_data2 = Fin 1, u_dynamic_sensorHandle = 0\<rparr>"

definition dark_env :: "int \<Rightarrow> als_env" where
  "dark_env t = \<lparr>als_now = t, file_brightness = [], area = Some (Fin 0, Fin 0, Fin 0)\<rparr>"

definition lit_env :: "int \<Rightarrow> als_env" where
  "lit_env t = \<lparr>als_now = t, file_brightness = [Field (Fin 512)], area = Some (Fin 0, Fin 0, Fin 0)\<rparr>"

definition ready :: als_statics where
  "ready = als_initially
     \<lparr>service := True,
      conf := als_config_initially
        \<lparr>sensor_inverse_gain := replicate 4 (Fin 1), calib_gain := Fin 1,
         max_brightness := Fin 1024, agc_threshold := Fin 800\<rparr>\<rparr>"

definition not_fresh :: als_statics where
  "not_fresh = ready\<lparr>state := als_state_initially\<lparr>last_update := 7, last_forced_update := 7\<rparr>\<rparr>"

lemmas ready_simps =
  ready_def als_initially_def als_state_initially_def als_config_initially_def
  dark_env_def lit_env_def light_event_def hysteresis_ranges_initially_def

text \<open>
  C37: correcting a list of events before it is posted keeps its length and its order, the
  types and the timestamps; an event that is not of the light sensor stays as it is, and an
  event of the light sensor keeps its handle or gets the handle zero, which is how the code
  drops it.
\<close>

theorem correction_keeps_events:
  "map timestamp (posted_events (als_process_next pow inputs) es s) = map timestamp es
   \<and> map sensorType (posted_events (als_process_next pow inputs) es s) = map sensorType es
   \<and> list_all2 (\<lambda>e e'. e' = e
         \<or> sensorType e = SENSOR_TYPE_QTI_WISE_LIGHT \<and> sensorHandle e' \<in> {sensorHandle e, 0})
       es (posted_events (als_process_next pow inputs) es s)"
proof -
  have "list_all2 (\<lambda>e e'. (sensorType e \<noteq> SENSOR_TYPE_QTI_WISE_LIGHT \<longrightarrow> e' = e)
        \<and> (sensorHandle e' = sensorHandle e
           \<or> sensorHandle e' = 0 \<and> sensorType e = SENSOR_TYPE_QTI_WISE_LIGHT))
      es (posted_events (als_process_next pow inputs) es s)"
    using als.corrected_others [of es pow inputs "als_world s"]
      als.corrected_handles [of es pow inputs "als_world s"]
    by (simp add: posted_events_def list_all2_conv_all_nth)
  then have "list_all2 (\<lambda>e e'. e' = e
         \<or> sensorType e = SENSOR_TYPE_QTI_WISE_LIGHT \<and> sensorHandle e' \<in> {sensorHandle e, 0})
       es (posted_events (als_process_next pow inputs) es s)"
    by (rule list.rel_mono_strong) auto
  then show ?thesis
    by (simp add: posted_events_def als.corrected_timestamps als.corrected_types)
qed

text \<open>
  C32: the rate is limited.  Whatever the events, the brightness and the pictures are, any two
  events of the light sensor that are not dropped are at least 100 ms apart.
\<close>

theorem light_events_spaced:
  assumes "\<forall>(env, e) \<in> set xs. 0 < als_now env"
  shows "sorted_wrt (\<lambda>a b. a + 100000000 \<le> b) (accepted_times pow xs w)"
  using accepted_spaced [OF assms] by blast

theorem light_events_spaced_witness:
  "sorted_wrt (\<lambda>a b. a + 100000000 \<le> b)
     (accepted_times no_pow [(dark_env 5, light_event (Fin 20)), (dark_env 50, light_event (Fin 30))]
       ready)"
  by (rule light_events_spaced) (simp add: dark_env_def)

text \<open>
  C35: no corrected reading is negative.  From a state whose last value is not negative, as the
  initial one, no event that is not dropped leaves with a value below zero, whatever the
  raw readings, the configuration and the pictures are; infinities and not-a-number
  included.
\<close>

theorem light_values_not_negative:
  assumes "\<not> fless (last_corrected_value (state w)) (Fin 0)"
  shows "\<forall>e' \<in> set (fst (process_all pow xs w)).
      sensorHandle e' \<noteq> 0 \<longrightarrow> \<not> fless (u_scalar e') (Fin 0)"
  using assms by (rule all_values_not_negative)

theorem light_values_not_negative_witness:
  "\<not> fless (u_scalar (hd (fst (process_all no_pow [(dark_env 5, light_event (Fin (- 20)))] ready)))) (Fin 0)"
proof -
  let ?es = "fst (process_all no_pow [(dark_env 5, light_event (Fin (- 20)))] ready)"
  have "\<not> fless (last_corrected_value (state ready)) (Fin 0)" by (simp add: ready_simps)
  from light_values_not_negative [OF this, of no_pow "[(dark_env 5, light_event (Fin (- 20)))]"]
  have "sensorHandle (hd ?es) \<noteq> 0 \<longrightarrow> \<not> fless (u_scalar (hd ?es)) (Fin 0)"
    by (simp add: Let_def case_prod_unfold)
  moreover have "sensorHandle (hd ?es) \<noteq> 0" by code_simp
  ultimately show ?thesis by blast
qed

text \<open>
  C33: readings are steady.  After a light event that is not dropped, the next one is given the
  same value, and only the time of the last update changes, if it comes at least 100 ms later,
  its reading lies in the band the first one left, and no forced update is due: the
  display is off, or at most 3 s have passed since the last forced update.
\<close>

theorem light_reading_steady:
  assumes "als_process pow env1 e1 w = (e1', w1)" and "sensorHandle e1' \<noteq> 0"
    and "0 < als_now env1" and "als_now env1 + 100000000 \<le> als_now env2"
    and "\<not> fless (Fin 0) (to_float (get (file_brightness env2) (Fin 0)))
         \<or> als_now env2 - last_forced_update (state w1) \<le> 3000000000"
    and "\<not> fless (u_scalar (remove_bias (conf w) e2)) (hyst_min (state w1))"
    and "\<not> fless (hyst_max (state w1)) (u_scalar (remove_bias (conf w) e2))"
  shows "als_process pow env2 e2 w1
       = (e2\<lparr>u_scalar := u_scalar e1'\<rparr>, w1\<lparr>state := (state w1)\<lparr>last_update := als_now env2\<rparr>\<rparr>)"
proof -
  have e1': "e1' = fst (als_process pow env1 e1 w)" and w1: "w1 = snd (als_process pow env1 e1 w)"
    by (simp_all add: assms(1))
  have kept: "sensorHandle (fst (als_process pow env1 e1 w)) \<noteq> 0"
    using assms(2) by (simp add: e1')
  have "last_update (state w1) = als_now env1"
    using kept_last_update [OF kept] by (simp add: w1)
  moreover have "u_scalar e1' = last_corrected_value (state w1)"
    using als_process_value [OF kept] by (simp add: e1' w1)
  moreover have "\<not> force_update (state w1)"
    using kept_not_forced [OF kept] by (simp add: w1)
  moreover have "conf w1 = conf w"
    by (simp add: w1 als_process_statics)
  moreover have "\<not> (fless (Fin 0) (to_float (get (file_brightness env2) (Fin 0)))
      \<and> 3000000000 < als_now env2 - last_forced_update (state w1))"
    using assms(5) by linarith
  moreover from this and \<open>last_update (state w1) = als_now env1\<close>
  have "throttle (als_now env2) (to_float (get (file_brightness env2) (Fin 0))) (state w1)
      = ((state w1)\<lparr>last_update := als_now env2\<rparr>, False)"
    unfolding throttle_def Let_def using assms(3,4) by auto
  ultimately show ?thesis
    using assms(6,7)
    by (simp add: als_process_def Let_def case_prod_unfold update_needed_def remove_bias_def)
qed

theorem light_reading_steady_witness:
  "als_process no_pow (dark_env 200000000) (light_event (Fin 110))
     (snd (als_process no_pow (dark_env 5) (light_event (Fin 100)) ready))
   = ((light_event (Fin 110))\<lparr>u_scalar :=
        u_scalar (fst (als_process no_pow (dark_env 5) (light_event (Fin 100)) ready))\<rparr>,
      (snd (als_process no_pow (dark_env 5) (light_event (Fin 100)) ready))
        \<lparr>state := (state (snd (als_process no_pow (dark_env 5) (light_event (Fin 100)) ready)))
           \<lparr>last_update := als_now (dark_env 200000000)\<rparr>\<rparr>)"
  by (rule light_reading_steady [OF surjective_pairing]) code_simp+

text \<open>
  C34: the screen is looked at again.  When the display is on and more than 3 s have passed
  since the last forced update, the next event that is not too fast is corrected from a
  new picture: its value is the calibrated reading less the light of the screen, lowered
  by 14 and cut off at zero, and the state takes the first hysteresis range whose middle is
  not below it.
\<close>

theorem forced_update_corrects:
  assumes "last_update (state w) \<noteq> 0" and "last_update (state w) + 100000000 \<le> als_now env"
    and "b = to_float (get (file_brightness env) (Fin 0))" and "fless (Fin 0) b"
    and "last_forced_update (state w) + 3000000000 < als_now env"
    and "service w" and "area env = Some x"
    and "screen_light pow (conf w) b x = (correction, fullwhite)"
    and "raw = fmax (f32_sub (u_scalar (remove_bias (conf w) e)) correction) (Fin 0)"
    and "gain = agc_gain_for (conf w) raw (u_data2 e)"
    and "lux = f32_mul (f32_mul raw (calib_gain (conf w))) gain"
    and "range_for (hysteresis_ranges w) lux i"
    and "v = to_float (fmax (f64_sub lux (Fin 14)) (Fin 0))"
  shows "als_process pow env e w =
     (e\<lparr>u_scalar := v\<rparr>,
      w\<lparr>state := \<lparr>last_update = als_now env, last_forced_update = als_now env,
                  force_update = False,
                  hyst_min = range_min (hysteresis_ranges w ! i),
                  hyst_max = f32_add (range_max (hysteresis_ranges w ! i)) fullwhite,
                  last_corrected_value = v, last_agc_gain = gain\<rparr>\<rparr>)"
proof -
  let ?e = "remove_bias (conf w) e"
  let ?st = "(state w)\<lparr>last_update := als_now env, last_forced_update := als_now env,
                force_update := True\<rparr>"
  have throttle: "throttle (als_now env) b (state w) = (?st, False)"
    using assms(1,2,4,5) by (simp add: throttle_def)
  have needed: "update_needed (conf w) ?st (u_scalar ?e)"
    by (simp add: update_needed_def Let_def)
  have "correct_value pow (conf w) (hysteresis_ranges w) b x (u_scalar ?e) (u_data2 ?e) ?st
      = (v, \<lparr>last_update = als_now env, last_forced_update = als_now env, force_update = False,
             hyst_min = range_min (hysteresis_ranges w ! i),
             hyst_max = f32_add (range_max (hysteresis_ranges w ! i)) fullwhite,
             last_corrected_value = v, last_agc_gain = gain\<rparr>)"
    using find_range [OF assms(12)]
    by (simp add: correct_value_def assms(8) Let_def set_hysteresis_def
        flip: assms(9-11,13))
  with throttle needed assms(6,7) show ?thesis
    by (simp add: als_process_def Let_def flip: assms(3))
qed

theorem forced_update_corrects_witness:
  "als_process no_pow (lit_env 4000000000) (light_event (Fin 100)) not_fresh
     = ((light_event (Fin 100))\<lparr>u_scalar := Fin 86\<rparr>,
        not_fresh\<lparr>state := \<lparr>last_update = als_now (lit_env 4000000000),
                  last_forced_update = als_now (lit_env 4000000000), force_update = False,
                  hyst_min = range_min (hysteresis_ranges not_fresh ! 4),
                  hyst_max = f32_add (range_max (hysteresis_ranges not_fresh ! 4)) (Fin 0),
                  last_corrected_value = Fin 86, last_agc_gain = Fin 1\<rparr>\<rparr>)"
  by (rule forced_update_corrects [where x = "(Fin 0, Fin 0, Fin 0)" and correction = "Fin 0"
        and raw = "Fin 100" and lux = "Fin 100" and b = "Fin 512"]) code_simp+

text \<open>
  The estimate of the screen's light lies between the light of a grey screen of the same
  mean and that of a white screen, and with the display off nothing is subtracted.
\<close>

lemma screen_light_bounds:
  assumes "(correction, fullwhite) = screen_light pow c brightness x"
    and "gamma = to_float (f64_mul (pow (f64_div (rgbw_of c x ! 3) (Fin 255)) (f64 (22 / 10))) fullwhite)"
  shows "\<not> fless correction gamma \<and> \<not> fless (fmax fullwhite gamma) correction"
  using assms by (simp add: screen_light_def Let_def fmax_not_less clamp_not_above)

text \<open>
  The initialisation of the light correction runs once for every light sensor that is
  registered, on the same state, not once for the whole proxy.
\<close>

lemma light_init_runs_per_sensor:
  "als_world (initializeSensorList K ops ai s)
     = (ai ^^ light_sensors K (reported ops s) (length (mSubHalList s))) (als_world s)"
  by (simp add: initializeSensorList_def register_upto_als)

definition half_gain :: init_env where
  "half_gain =
     \<lparr>property_hbr = False, property_bias = 0, property_rgbw_max_lux_div = [],
      property_rgbw_poly = (\<lambda>i. []), property_grayscale_weights = [],
      property_sensor_gaincal_points = [], property_sensor_inverse_gain = [Field (Fin 1)],
      file_fields = (\<lambda>path. if path = ALS_CALI_DIR @ ''row_coe'' then [Field (Fin 500)] else []),
      service_isDeclared = False, waitForService_gives = False\<rparr>"

lemma half_gain: "sensor_inverse_gain (conf w) \<noteq> [] \<Longrightarrow> gain_of (conf (als_init half_gain w)) = Fin (1 / 2)"
  by (subst gain_init) (assumption, code_simp+)

lemma half_gain_step:
  assumes "sensor_inverse_gain (conf w) \<noteq> []" and "1 < length (hysteresis_ranges w)"
  shows "hysteresis_ranges (als_init half_gain w) ! 1
       = (hysteresis_ranges w ! 1)
           \<lparr>range_min := f32_div (range_min (hysteresis_ranges w ! 1)) (Fin (1 / 2)),
            range_max := f32_div (range_max (hysteresis_ranges w ! 1)) (Fin (1 / 2))\<rparr>"
  using assms by (simp add: ranges_init scale_other half_gain)

lemma half_gain_once:
  "hysteresis_ranges (als_init half_gain als_initially) ! 1
     = \<lparr>middle = Fin 7, range_min = Fin 2, range_max = Fin 24\<rparr>"
  by (subst half_gain_step) code_simp+

lemma half_gain_twice:
  "hysteresis_ranges (als_init half_gain (als_init half_gain als_initially)) ! 1
     = \<lparr>middle = Fin 7, range_min = Fin 4, range_max = Fin 48\<rparr>"
proof -
  have "length (sensor_inverse_gain (conf als_initially)) = 4"
    and "length (hysteresis_ranges als_initially) = 10"
    by code_simp+
  then have "sensor_inverse_gain (conf (als_init half_gain als_initially)) \<noteq> []"
    and "1 < length (hysteresis_ranges (als_init half_gain als_initially))"
    by (simp_all add: ranges_init flip: length_0_conv)
  from half_gain_step [OF this, unfolded half_gain_once]
  have "hysteresis_ranges (als_init half_gain (als_init half_gain als_initially)) ! 1
     = \<lparr>middle = Fin 7, range_min = f32_div (Fin 2) (Fin (1 / 2)),
        range_max = f32_div (Fin 24) (Fin (1 / 2))\<rparr>"
    by (simp del: fdiv.simps)
  moreover have "f32_div (Fin 2) (Fin (1 / 2)) = Fin 4" and "f32_div (Fin 24) (Fin (1 / 2)) = Fin 48"
    by code_simp+
  ultimately show ?thesis by (simp del: fdiv.simps)
qed

definition light_info :: "i32 \<Rightarrow> sensor_info" where
  "light_info h = \<lparr>info_sensorHandle = h, info_name = ''light'',
                   info_type = SENSOR_TYPE_QTI_WISE_LIGHT, info_flags = 0\<rparr>"

definition two_light_sensors :: "(als_statics, sensor_info list) hal_proxy" where
  "two_light_sensors =
     \<lparr>mThreadsRun = False, mWakelockRefCount = 0, mWakelockTimeoutStartTime = 0,
      mWakelockTimeoutResetTime = 0, calls = [], mSensors = [], mPendingWriteEventsQueue = [],
      mSizePendingWriteEventsQueue = 0, mMostEventsObservedPendingWriteEventsQueue = 0,
      als_world = als_initially,
      mSubHalList = [SubHalWrapperV2_0 [light_info 1, light_info 2]], mDynamicSensors = [],
      mDirectChannelSubHal = None, mCurrentOperationMode = NORMAL,
      mDynamicSensorsCallback = False, mEventQueue = None, mWakeLockQueue = False,
      mEventQueueFlag = False, mWakelockQueueFlag = False, mPendingWritesThread = None,
      mWakelockThread = None\<rparr>"

text \<open>
  The initialisation is not idempotent.  It divides the table of hysteresis ranges by the
  sensor's gain in place, so two light sensors scale it twice: with a gain of one half the
  limits of the range around 7 lux are 2 and 24 after one initialisation, and 4 and 48 after
  the second, while the calibrated value they are compared with is the same.
\<close>

lemma second_light_sensor_rescales:
  assumes "light_sensors K (reported ops s) (length (mSubHalList s)) = 2"
    and "als_world s = als_initially"
  shows "hysteresis_ranges (als_init half_gain als_initially) ! 1
       = \<lparr>middle = Fin 7, range_min = Fin 2, range_max = Fin 24\<rparr>
     \<and> hysteresis_ranges (als_world (initializeSensorList K ops (als_init half_gain) s)) ! 1
       = \<lparr>middle = Fin 7, range_min = Fin 4, range_max = Fin 48\<rparr>"
proof -
  have "als_world (initializeSensorList K ops (als_init half_gain) s)
      = als_init half_gain (als_init half_gain als_initially)"
    using register_upto_als [of "length (mSubHalList s)" s K ops "als_init half_gain"] assms
    by (simp add: initializeSensorList_def numeral_2_eq_2)
  then show ?thesis by (simp only: half_gain_once half_gain_twice)
qed

end
