(* ===== verification/Light_Order.thy ===== *)
theory Light_Order
  imports Light_Properties
begin

text \<open>
  Whether more light gives a higher value: the correction itself is monotone, rounding
  included, but the removal of the bias before it is not.
\<close>

subsection \<open>Monotone arithmetic\<close>

text \<open>Values in order, none of which is not-a-number.\<close>

definition ordered :: "fl \<Rightarrow> fl \<Rightarrow> bool" where
  "ordered a b \<longleftrightarrow> a \<le> b \<and> b \<noteq> NaN"

lemma NInf_le [simp]: "NInf \<le> v"
  by (cases v) simp_all

lemma le_PInf [simp]: "v \<le> PInf \<longleftrightarrow> v \<noteq> NaN"
  by (cases v) simp_all

lemma ordered_add: "format_ok fmt \<Longrightarrow> ordered a b \<Longrightarrow> ordered (fadd fmt a (Fin y)) (fadd fmt b (Fin y))"
  by (cases a; cases b) (simp_all add: ordered_def rnd_mono)

lemma ordered_sub: "format_ok fmt \<Longrightarrow> ordered a b \<Longrightarrow> ordered (fsub fmt a (Fin y)) (fsub fmt b (Fin y))"
  by (simp add: fsub_def ordered_add)

lemma ordered_mul:
  assumes "format_ok fmt" and "0 < y" and "ordered a b"
  shows "ordered (fmul fmt a (Fin y)) (fmul fmt b (Fin y))"
  using assms by (cases a; cases b) (simp_all add: ordered_def rnd_mono inf_of_sign_def)

lemma ordered_max: "ordered a b \<Longrightarrow> ordered (fmax a (Fin y)) (fmax b (Fin y))"
  by (cases a; cases b) (auto simp: ordered_def fmax_def)

lemma ordered_to_float: "ordered a b \<Longrightarrow> ordered (to_float a) (to_float b)"
  by (cases a; cases b) (simp_all add: ordered_def rnd_mono)

subsection \<open>The correction\<close>

text \<open>The value that \<open>correct_value\<close> computes, given the light of the screen and the gain.\<close>

definition lux_value :: "fl \<Rightarrow> fl \<Rightarrow> fl \<Rightarrow> fl" where
  "lux_value raw calib gain =
     to_float (fmax (f64_sub (f32_mul (f32_mul raw calib) gain) (Fin 14)) (Fin 0))"

definition raw_light :: "fl \<Rightarrow> fl \<Rightarrow> fl" where
  "raw_light scalar correction = fmax (f32_sub scalar correction) (Fin 0)"

lemma corrected_lux:
  assumes "force_update st" and "screen_light pow c b x = (correction, fullwhite)"
  shows "fst (correct_value pow c rs b x v d st)
       = lux_value (raw_light v correction) (calib_gain c) (agc_gain_for c (raw_light v correction) d)"
  using assms by (simp add: correct_value_def lux_value_def raw_light_def Let_def)

lemma ordered_raw: "ordered v v' \<Longrightarrow> ordered (raw_light v (Fin k)) (raw_light v' (Fin k))"
  by (simp add: raw_light_def ordered_max ordered_sub)

lemma ordered_lux:
  "0 < k \<Longrightarrow> 0 < g \<Longrightarrow> ordered a b \<Longrightarrow> ordered (lux_value a (Fin k) (Fin g)) (lux_value b (Fin k) (Fin g))"
  by (simp add: lux_value_def ordered_to_float ordered_max ordered_sub ordered_mul)

text \<open>An event that comes in time while an update is forced is corrected.\<close>

lemma forced_value:
  assumes "b = to_float (get (file_brightness env) (Fin 0))"
    and "throttle (als_now env) b (state w) = (st, False)" and "force_update st"
    and "service w" and "area env = Some x"
  shows "u_scalar (fst (als_process pow env e w))
       = fst (correct_value pow (conf w) (hysteresis_ranges w) b x
           (u_scalar (remove_bias (conf w) e)) (u_data2 e) st)"
  using assms by (simp add: als_process_def update_needed_def case_prod_unfold Let_def)

text \<open>
  C36: at an update that is forced, more light is not reported as less.  Take two readings with
  the same surroundings, of which the second, without its bias, is at least the first and a number.
  If an update is forced, the service gives a picture, the estimate of the screen's light
  is finite, and both are amplified with the same positive gain, then the second value is at
  least the first, although every operation rounds and small values are cut off.  (Between
  forced updates a reading in the band keeps its old value, which this does not compare.)
\<close>

theorem brighter_not_darker:
  assumes "b = to_float (get (file_brightness env) (Fin 0))"
    and "throttle (als_now env) b (state w) = (st, False)" and "force_update st"
    and "service w" and "area env = Some x"
    and "screen_light pow (conf w) b x = (Fin correction, fullwhite)"
    and "u_scalar (remove_bias (conf w) e) \<le> u_scalar (remove_bias (conf w) e')"
    and "u_scalar (remove_bias (conf w) e') \<noteq> NaN"
    and "calib_gain (conf w) = Fin calib" and "0 < calib" and "0 < gain"
    and "agc_gain_for (conf w) (raw_light (u_scalar (remove_bias (conf w) e)) (Fin correction)) (u_data2 e)
           = Fin gain"
    and "agc_gain_for (conf w) (raw_light (u_scalar (remove_bias (conf w) e')) (Fin correction)) (u_data2 e')
           = Fin gain"
  shows "u_scalar (fst (als_process pow env e w)) \<le> u_scalar (fst (als_process pow env e' w))"
proof -
  have "ordered (u_scalar (remove_bias (conf w) e)) (u_scalar (remove_bias (conf w) e'))"
    using assms(7,8) by (simp add: ordered_def)
  then have "ordered (u_scalar (fst (als_process pow env e w))) (u_scalar (fst (als_process pow env e' w)))"
    using assms(9-13)
    by (simp add: forced_value [OF assms(1-5)] corrected_lux [OF assms(3,6)] ordered_lux ordered_raw)
  then show ?thesis by (simp add: ordered_def)
qed

theorem brighter_not_darker_witness:
  "u_scalar (fst (als_process no_pow (lit_env 4000000000) (light_event (Fin 100)) not_fresh))
     \<le> u_scalar (fst (als_process no_pow (lit_env 4000000000) (light_event (Fin 110)) not_fresh))"
  by (rule brighter_not_darker [where x = "(Fin 0, Fin 0, Fin 0)" and correction = 0 and calib = 1
        and gain = 1 and fullwhite = "Fin 0" and b = "Fin 512"
        and st = "fst (throttle (als_now (lit_env 4000000000)) (Fin 512) (state not_fresh))"]) code_simp+

subsection \<open>The bias\<close>

text \<open>
  The bias turns the order around.  It is subtracted from readings above it only, so a dark
  reading that does not exceed it is passed on as it is and counts as more light than a
  brighter one that exceeds it by less.
\<close>

lemma bias_reverses_order:
  assumes "bias c = Fin (of_nat b)" and "u_scalar e = Fin (of_nat dark)"
    and "u_scalar e' = Fin (of_nat bright)"
    and "dark \<le> b" and "b < bright" and "bright < 2 ^ 24" and "bright - b < dark"
  shows "u_scalar e < u_scalar e' \<and> u_scalar (remove_bias c e') < u_scalar (remove_bias c e)"
proof -
  have "f32_sub (Fin (of_nat bright)) (Fin (of_nat b)) = Fin (of_nat (bright - b))"
    using assms(5,6) rnd_nat [of "bright - b"] by (simp add: fsub_def of_nat_diff)
  then have "u_scalar (remove_bias c e') = Fin (of_nat (bright - b))"
    using assms by (simp add: remove_bias_def)
  moreover have "u_scalar (remove_bias c e) = Fin (of_nat dark)"
    using assms by (simp add: remove_bias_def)
  moreover have "dark < bright" using assms(4,5) by simp
  ultimately show ?thesis using assms by simp
qed

end
