(* ===== verification/Stop_Protocol.thy ===== *)
theory Stop_Protocol
  imports Prelude
begin

text \<open>
  How \<open>stopThreads\<close> ends a thread, at the grain of single atomic actions.  Both threads have
  the same loop: with the mutex held, they test \<open>mThreadsRun\<close>, wait on a condition variable
  with a predicate, and do their work if they may still run.  \<open>wait (lock, pred)\<close> evaluates
  the predicate and, if it is false, releases the mutex and blocks in one action.
  \<open>stopThreads\<close> stores \<open>mThreadsRun\<close> and notifies without the mutex.

  The thread can be woken by a notification only; a spurious wake-up may come but the program
  must not count on it, and it is not a step here.
\<close>

datatype worker_pc =
    W_LOOP        \<comment> \<open>about to test the loop condition, mutex held\<close>
  | W_PREDICATE   \<comment> \<open>in \<open>wait\<close>, about to evaluate the predicate, mutex held\<close>
  | W_BLOCKING    \<comment> \<open>the predicate was false, about to block, mutex held\<close>
  | W_ASLEEP      \<comment> \<open>blocked, mutex released\<close>
  | W_BODY        \<comment> \<open>after the wait\<close>
  | W_DONE

datatype stopper_pc = S_STORE | S_NOTIFY | S_JOIN | S_DONE

record stop_state =
  run :: bool
  work :: bool
  worker :: worker_pc
  stopper :: stopper_pc

text \<open>The initial state of a thread that has been started.\<close>

definition started :: stop_state where
  "started = \<lparr>run = True, work = False, worker = W_LOOP, stopper = S_STORE\<rparr>"

text \<open>\<open>notify_one\<close> moves a blocked thread back to its predicate, and is lost otherwise.\<close>

definition notified :: "worker_pc \<Rightarrow> worker_pc" where
  "notified pc = (if pc = W_ASLEEP then W_PREDICATE else pc)"

inductive stop_step :: "stop_state \<Rightarrow> stop_state \<Rightarrow> bool" where
  loop: "worker s = W_LOOP \<Longrightarrow>
     stop_step s (s\<lparr>worker := if run s then W_PREDICATE else W_DONE\<rparr>)"
| predicate: "worker s = W_PREDICATE \<Longrightarrow>
     stop_step s (s\<lparr>worker := if work s \<or> \<not> run s then W_BODY else W_BLOCKING\<rparr>)"
| block: "worker s = W_BLOCKING \<Longrightarrow> stop_step s (s\<lparr>worker := W_ASLEEP\<rparr>)"
| body: "worker s = W_BODY \<Longrightarrow> stop_step s (s\<lparr>worker := W_LOOP, work := if run s then still_work else work s\<rparr>)"
| post: "run s \<Longrightarrow> worker s \<in> {W_ASLEEP, W_BODY} \<Longrightarrow>
     stop_step s (s\<lparr>work := True, worker := notified (worker s)\<rparr>)"
| store: "stopper s = S_STORE \<Longrightarrow> stop_step s (s\<lparr>run := False, stopper := S_NOTIFY\<rparr>)"
| notify: "stopper s = S_NOTIFY \<Longrightarrow>
     stop_step s (s\<lparr>worker := notified (worker s), stopper := S_JOIN\<rparr>)"
| join: "stopper s = S_JOIN \<Longrightarrow> worker s = W_DONE \<Longrightarrow> stop_step s (s\<lparr>stopper := S_DONE\<rparr>)"

inductive_simps stop_step_iff: "stop_step s t"

definition stuck :: "stop_state \<Rightarrow> bool" where
  "stuck s \<longleftrightarrow> (\<forall>t. \<not> stop_step s t)"

lemma stuck_iff:
  "stuck s \<longleftrightarrow>
     (worker s = W_DONE \<and> stopper s = S_DONE)
     \<or> (worker s = W_ASLEEP \<and> \<not> run s \<and> stopper s \<in> {S_JOIN, S_DONE})"
  by (cases "worker s"; cases "stopper s"; cases "run s") (auto simp: stuck_def stop_step_iff)

text \<open>The thread that is joined is done, and a thread that may not run has been told so.\<close>

definition stop_inv :: "stop_state \<Rightarrow> bool" where
  "stop_inv s \<longleftrightarrow>
     (stopper s = S_STORE \<longleftrightarrow> run s) \<and> (stopper s = S_DONE \<longrightarrow> worker s = W_DONE)"

lemma stop_inv_step: "stop_step s t \<Longrightarrow> stop_inv s \<Longrightarrow> stop_inv t"
  by (induction rule: stop_step.induct) (auto simp: stop_inv_def notified_def)

lemma stop_inv_reachable: "stop_step\<^sup>*\<^sup>* started t \<Longrightarrow> stop_inv t"
  by (induction rule: rtranclp_induct) (auto simp: stop_inv_step, simp add: stop_inv_def started_def)

text \<open>
  While the store and the notification do not fall between the predicate and the blocking, the
  thread is on its way to the end: the number of its steps that are left.
\<close>

fun steps_left :: "worker_pc \<Rightarrow> nat" where
  "steps_left W_DONE = 0"
| "steps_left W_LOOP = 1"
| "steps_left W_BODY = 2"
| "steps_left W_PREDICATE = 3"
| "steps_left W_ASLEEP = 4"
| "steps_left W_BLOCKING = 5"

definition awake :: "stop_state \<Rightarrow> bool" where
  "awake s \<longleftrightarrow> \<not> run s \<and> worker s \<notin> {W_BLOCKING, W_ASLEEP}"

lemma awake_step:
  assumes "stop_step s t" and "awake s"
  shows "awake t \<and> (steps_left (worker t) < steps_left (worker s)
                   \<or> worker t = worker s \<and> stopper t \<noteq> stopper s)"
  using assms by (cases rule: stop_step.cases) (auto simp: awake_def notified_def)

subsection \<open>Properties\<close>

text \<open>
  C23: a wake-up can be lost.  There is a run in which \<open>stopThreads\<close> stores \<open>mThreadsRun\<close> and
  notifies just after the thread has found the predicate false and before it blocks; the
  thread then sleeps for ever, and \<open>stopThreads\<close> waits for it for ever.
\<close>

theorem stop_can_hang:
  "\<exists>s. stop_step\<^sup>*\<^sup>* started s \<and> stuck s \<and> stopper s = S_JOIN \<and> worker s = W_ASLEEP"
proof -
  let ?s1 = "\<lparr>run = True, work = False, worker = W_PREDICATE, stopper = S_STORE\<rparr>"
  let ?s2 = "\<lparr>run = True, work = False, worker = W_BLOCKING, stopper = S_STORE\<rparr>"
  let ?s3 = "\<lparr>run = False, work = False, worker = W_BLOCKING, stopper = S_NOTIFY\<rparr>"
  let ?s4 = "\<lparr>run = False, work = False, worker = W_BLOCKING, stopper = S_JOIN\<rparr>"
  let ?s5 = "\<lparr>run = False, work = False, worker = W_ASLEEP, stopper = S_JOIN\<rparr>"
  have "stop_step started ?s1"
    using stop_step.loop [of started] by (simp add: started_def)
  moreover have "stop_step ?s1 ?s2"
    using stop_step.predicate [of ?s1] by simp
  moreover have "stop_step ?s2 ?s3"
    using stop_step.store [of ?s2] by simp
  moreover have "stop_step ?s3 ?s4"
    using stop_step.notify [of ?s3] by (simp add: notified_def)
  moreover have "stop_step ?s4 ?s5"
    using stop_step.block [of ?s4] by simp
  ultimately have "stop_step\<^sup>*\<^sup>* started ?s5"
    by (meson r_into_rtranclp rtranclp_trans)
  moreover have "stuck ?s5" by (simp add: stuck_iff)
  ultimately show ?thesis by (intro exI [of _ ?s5]) simp
qed

text \<open>
  C24: that is the only way.  In every reachable state without a further step, either the
  thread has ended and \<open>stopThreads\<close> has returned, or the thread sleeps although it has been
  told to stop.  A thread that is told to stop while it is not in \<open>wait\<close> after a false
  predicate stays awake, and each of its steps brings it nearer to its end.
\<close>

theorem stop_ends_or_hangs:
  assumes "stop_step\<^sup>*\<^sup>* started s"
  shows "(stuck s \<longrightarrow> worker s = W_DONE \<and> stopper s = S_DONE
            \<or> worker s = W_ASLEEP \<and> stopper s = S_JOIN \<and> \<not> run s)
       \<and> (\<not> run s \<and> worker s \<notin> {W_BLOCKING, W_ASLEEP} \<and> stop_step s t \<longrightarrow>
            worker t \<notin> {W_BLOCKING, W_ASLEEP}
            \<and> (steps_left (worker t) < steps_left (worker s)
               \<or> worker t = worker s \<and> stopper t \<noteq> stopper s))"
proof -
  have "stop_inv s" using assms by (rule stop_inv_reachable)
  then have "stuck s \<Longrightarrow> worker s = W_DONE \<and> stopper s = S_DONE
      \<or> worker s = W_ASLEEP \<and> stopper s = S_JOIN \<and> \<not> run s"
    by (auto simp: stuck_iff stop_inv_def)
  with awake_step [of s t] show ?thesis by (auto simp: awake_def)
qed

theorem stop_ends_or_hangs_witness:
  "worker (started\<lparr>run := False, stopper := S_NOTIFY, worker := W_DONE\<rparr>) \<notin> {W_BLOCKING, W_ASLEEP}"
proof -
  let ?s = "started\<lparr>run := False, stopper := S_NOTIFY\<rparr>"
  have "stop_step started ?s" by (rule stop_step.store) (simp add: started_def)
  then have "stop_step\<^sup>*\<^sup>* started ?s" by (rule r_into_rtranclp)
  moreover have "stop_step ?s (?s\<lparr>worker := W_DONE\<rparr>)"
    using stop_step.loop [of ?s] by (simp add: started_def)
  ultimately show ?thesis
    using stop_ends_or_hangs [of ?s "?s\<lparr>worker := W_DONE\<rparr>"] by (simp add: started_def)
qed

end
