(* ===== verification/Area_Capture.thy ===== *)
theory Area_Capture
  imports Float_Laws
begin

text \<open>
  \<open>als/default/AreaCapture.cpp\<close>: the service that takes a picture of the part of the display
  above the light sensor and returns the mean of each colour.  The capture itself is done by
  the system; its outcome is an input.
\<close>

subsection \<open>Construction\<close>

text \<open>
  \<open>is >> left >> top >> right >> bottom\<close> on integers: a number, or text that fails and stores
  the given value; nothing is stored at the end of the text or after a failure.
\<close>

datatype int_extraction = Int_Field int | Int_Bad int

fun extract_ints :: "int list \<Rightarrow> int_extraction list \<Rightarrow> int list" where
  "extract_ints [] fs = []"
| "extract_ints (x # xs) [] = x # xs"
| "extract_ints (x # xs) (Int_Field v # fs) = v # extract_ints xs fs"
| "extract_ints (x # xs) (Int_Bad v # fs) = v # xs"

record rect =
  rect_left :: int
  rect_top :: int
  rect_right :: int
  rect_bottom :: int

text \<open>
  The four variables have no initial value; what is found in them is the argument
  \<open>uninitialised\<close>.  The result \<open>None\<close> is the abort of \<open>LOG_ALWAYS_FATAL\<close>.
\<close>

definition AreaCapture :: "int \<times> int \<times> int \<times> int \<Rightarrow> int_extraction list \<Rightarrow> rect option" where
  "AreaCapture uninitialised property =
     (let (left, top, right, bottom) = uninitialised;
          vs = extract_ints [left, top, right, bottom] property
      in if vs ! 0 = 0 then None
         else Some \<lparr>rect_left = vs ! 0, rect_top = vs ! 1, rect_right = vs ! 2, rect_bottom = vs ! 3\<rparr>)"

subsection \<open>The mean of a picture\<close>

record buffer =
  buffer_width :: u32
  buffer_height :: u32
  buffer_stride :: u32
  out :: "u32 \<Rightarrow> 8 word"

text \<open>The index of a byte of a pixel; the arithmetic is unsigned, since \<open>stride\<close> is.\<close>

definition byte_index :: "buffer \<Rightarrow> nat \<Rightarrow> nat \<Rightarrow> u32 \<Rightarrow> u32" where
  "byte_index b y x channel = of_nat y * (buffer_stride b * 4) + of_nat x * 4 + channel"

definition add_pixel :: "buffer \<Rightarrow> nat \<Rightarrow> nat \<Rightarrow> u32 \<times> u32 \<times> u32 \<Rightarrow> u32 \<times> u32 \<times> u32" where
  "add_pixel b y x = (\<lambda>(rsum, gsum, bsum).
     (rsum + ucast (out b (byte_index b y x 0)),
      gsum + ucast (out b (byte_index b y x 1)),
      bsum + ucast (out b (byte_index b y x 2))))"

definition add_row :: "buffer \<Rightarrow> nat \<Rightarrow> u32 \<times> u32 \<times> u32 \<Rightarrow> u32 \<times> u32 \<times> u32" where
  "add_row b y acc = fold (add_pixel b y) [0 ..< unat (buffer_width b)] acc"

definition sum_pixels :: "buffer \<Rightarrow> u32 \<times> u32 \<times> u32" where
  "sum_pixels b = fold (add_row b) [0 ..< unat (buffer_height b)] (0, 0, 0)"

definition u32_to_float :: "u32 \<Rightarrow> fl" where
  "u32_to_float n = to_float (Fin (of_int (uint n)))"

definition mean_colour :: "buffer \<Rightarrow> fl \<times> fl \<times> fl" where
  "mean_colour b =
     (let (rsum, gsum, bsum) = sum_pixels b;
          max = u32_to_float (buffer_width b * buffer_height b)
      in (fdiv binary32 (u32_to_float rsum) max,
          fdiv binary32 (u32_to_float gsum) max,
          fdiv binary32 (u32_to_float bsum) max))"

text \<open>
  The outcome of \<open>captureDisplay\<close> for the arguments the code fills in, and of waiting for the
  results: a status, and a buffer behind a fence.  \<open>Rect\<close> and its methods are outside the
  repository.
\<close>

text \<open>
  The first physical display.  Reading the first element of an empty vector is undefined
  behaviour; \<open>None\<close> stands for it.
\<close>

definition getInternalDisplayToken :: "'i list \<Rightarrow> ('i \<Rightarrow> 't) \<Rightarrow> 't option" where
  "getInternalDisplayToken getPhysicalDisplayIds getPhysicalDisplayToken =
     (case getPhysicalDisplayIds of
        [] \<Rightarrow> None
      | displayId # _ \<Rightarrow> Some (getPhysicalDisplayToken displayId))"

record 't capture_args =
  displayToken :: 't
  pixelFormat_is_RGBA_8888 :: bool
  sourceCrop :: rect
  capture_width :: int
  capture_height :: int
  captureSecureLayers :: bool

datatype capture = Capture_failed | Captured bool buffer

datatype status = Status_ok | ServiceSpecificError int

text \<open>The results, or \<open>None\<close> if the behaviour is undefined because there is no display.\<close>

definition getAreaBrightness :: "'i list \<Rightarrow> ('i \<Rightarrow> 't) \<Rightarrow> (rect \<Rightarrow> int) \<Rightarrow> (rect \<Rightarrow> int)
    \<Rightarrow> ('t capture_args \<Rightarrow> capture) \<Rightarrow> rect \<Rightarrow> (status \<times> (fl \<times> fl \<times> fl) option) option" where
  "getAreaBrightness displayIds token getWidth getHeight captureDisplay m_screenshot_rect =
     (case getInternalDisplayToken displayIds token of
        None \<Rightarrow> None
      | Some t \<Rightarrow>
          let captureArgs =
                \<lparr>displayToken = t,
                 pixelFormat_is_RGBA_8888 = True,
                 sourceCrop = m_screenshot_rect,
                 capture_width = getWidth m_screenshot_rect,
                 capture_height = getHeight m_screenshot_rect,
                 captureSecureLayers = True\<rparr>
          in Some (case captureDisplay captureArgs of
               Capture_failed \<Rightarrow> (ServiceSpecificError (- 1), None)
             | Captured fence_ok b \<Rightarrow>
                 if \<not> fence_ok then (ServiceSpecificError (- 1), None)
                 else (Status_ok, Some (mean_colour b))))"

subsection \<open>The sums\<close>

definition channel_total :: "buffer \<Rightarrow> u32 \<Rightarrow> nat" where
  "channel_total b c =
     (\<Sum>y < unat (buffer_height b). \<Sum>x < unat (buffer_width b). unat (out b (byte_index b y x c)))"

lemma add_row_sums:
  "fold (add_pixel b y) [0 ..< n] (r, g, s) =
     (r + of_nat (\<Sum>x < n. unat (out b (byte_index b y x 0))),
      g + of_nat (\<Sum>x < n. unat (out b (byte_index b y x 1))),
      s + of_nat (\<Sum>x < n. unat (out b (byte_index b y x 2))))"
  by (induction n) (simp_all add: add_pixel_def algebra_simps)

lemma add_rows_sums:
  "fold (add_row b) [0 ..< n] (0, 0, 0) =
     (of_nat (\<Sum>y < n. \<Sum>x < unat (buffer_width b). unat (out b (byte_index b y x 0))),
      of_nat (\<Sum>y < n. \<Sum>x < unat (buffer_width b). unat (out b (byte_index b y x 1))),
      of_nat (\<Sum>y < n. \<Sum>x < unat (buffer_width b). unat (out b (byte_index b y x 2))))"
  by (induction n) (simp_all add: add_row_def add_row_sums add.commute)

lemma sum_pixels_totals:
  "sum_pixels b = (of_nat (channel_total b 0), of_nat (channel_total b 1), of_nat (channel_total b 2))"
  by (simp only: sum_pixels_def add_rows_sums channel_total_def)

lemma channel_total_le:
  "channel_total b c \<le> 255 * (unat (buffer_width b) * unat (buffer_height b))"
proof -
  have byte: "unat v \<le> 255" for v :: "8 word"
  proof -
    have "unat v < 2 ^ LENGTH(8)" by (rule unsigned_less)
    then show ?thesis by simp
  qed
  have "channel_total b c
      \<le> (\<Sum>y < unat (buffer_height b). \<Sum>x < unat (buffer_width b). 255)"
    unfolding channel_total_def by (intro sum_mono byte)
  then show ?thesis by (simp add: algebra_simps)
qed

lemma u32_to_float_nat: "m < 2 ^ 24 \<Longrightarrow> u32_to_float (of_nat m) = Fin (of_nat m)"
  by (simp add: u32_to_float_def unsigned_of_nat rnd_nat take_bit_nat_eq_self)

subsection \<open>Properties\<close>

definition example_buffer :: buffer where
  "example_buffer = \<lparr>buffer_width = 3, buffer_height = 2, buffer_stride = 4,
     out = (\<lambda>i. if i mod 4 = 0 then 200 else if i mod 4 = 1 then 100 else 7)\<rparr>"

text \<open>
  The sums do not overflow.  For an area of at most 16843009 pixels the three 32-bit sums
  are the sums of the bytes of the pixels of the area, whatever the picture is; this is the
  largest number of pixels for which a white picture fits.
\<close>

lemma area_sums_exact:
  assumes "unat (buffer_width b) * unat (buffer_height b) \<le> 16843009"
    and "sum_pixels b = (rsum, gsum, bsum)"
  shows "unat rsum = channel_total b 0 \<and> unat gsum = channel_total b 1
       \<and> unat bsum = channel_total b 2
       \<and> unat (buffer_width b * buffer_height b) = unat (buffer_width b) * unat (buffer_height b)"
proof -
  have "unat (of_nat (channel_total b c) :: u32) = channel_total b c" for c
  proof -
    have "channel_total b c < 2 ^ 32"
      using channel_total_le [of b c] assms(1) by simp
    then show ?thesis by (simp add: unat_of_nat)
  qed
  then show ?thesis
    using assms by (auto simp: sum_pixels_totals unat_word_ariths)
qed

text \<open>
  With at most 65793 pixels no conversion and no sum rounds, and the division rounds
  monotonically.
\<close>

lemma byte_le: "unat (v :: 8 word) \<le> 255"
proof -
  have "unat v < 2 ^ LENGTH(8)" by (rule unsigned_less)
  then show ?thesis by simp
qed

lemma mean_bounds:
  assumes "0 < n" and "n \<le> 65793" and "n * lo \<le> sum_all" and "sum_all \<le> n * hi" and "hi \<le> 255"
  shows "Fin (of_nat lo) \<le> fdiv binary32 (u32_to_float (of_nat sum_all)) (u32_to_float (of_nat n))"
    and "fdiv binary32 (u32_to_float (of_nat sum_all)) (u32_to_float (of_nat n)) \<le> Fin (of_nat hi)"
proof -
  have "n * hi \<le> 65793 * 255" using assms(2,5) by (intro mult_mono) simp_all
  then have "sum_all < 2 ^ 24" using assms(4) by simp
  moreover have "n < 2 ^ 24" using assms(2) by simp
  ultimately have mean: "fdiv binary32 (u32_to_float (of_nat sum_all)) (u32_to_float (of_nat n))
      = rnd binary32 (of_nat sum_all / of_nat n)"
    using assms(1) by (simp add: u32_to_float_nat)
  have "n * lo \<le> n * hi" using assms(3,4) by (rule order_trans)
  then have "lo \<le> hi" using assms(1) by simp
  have "of_nat lo \<le> (of_nat sum_all / of_nat n :: rat)" "(of_nat sum_all / of_nat n :: rat) \<le> of_nat hi"
    using assms(1,3,4)
    by (simp_all add: pos_le_divide_eq pos_divide_le_eq mult.commute flip: of_nat_mult)
  then have "rnd binary32 (of_nat lo) \<le> rnd binary32 (of_nat sum_all / of_nat n)"
    "rnd binary32 (of_nat sum_all / of_nat n) \<le> rnd binary32 (of_nat hi)"
    by (simp_all add: rnd_mono)
  then show "Fin (of_nat lo) \<le> fdiv binary32 (u32_to_float (of_nat sum_all)) (u32_to_float (of_nat n))"
    "fdiv binary32 (u32_to_float (of_nat sum_all)) (u32_to_float (of_nat n)) \<le> Fin (of_nat hi)"
    using rnd_nat [of lo] rnd_nat [of hi] \<open>lo \<le> hi\<close> assms(5) by (simp_all add: mean)
qed

text \<open>Every colour of every pixel of the area is between two bytes.\<close>

definition bytes_between :: "buffer \<Rightarrow> u32 \<Rightarrow> 8 word \<Rightarrow> 8 word \<Rightarrow> bool" where
  "bytes_between b c lo hi \<longleftrightarrow>
     (\<forall>y < unat (buffer_height b). \<forall>x < unat (buffer_width b).
        lo \<le> out b (byte_index b y x c) \<and> out b (byte_index b y x c) \<le> hi)"

lemma channel_total_between:
  assumes "bytes_between b c lo hi"
  shows "unat (buffer_width b) * unat (buffer_height b) * unat lo \<le> channel_total b c"
    and "channel_total b c \<le> unat (buffer_width b) * unat (buffer_height b) * unat hi"
proof -
  have byte: "unat lo \<le> unat (out b (byte_index b y x c))" "unat (out b (byte_index b y x c)) \<le> unat hi"
    if "y < unat (buffer_height b)" "x < unat (buffer_width b)" for y x
    using assms that by (simp_all add: bytes_between_def word_le_nat_alt)
  have "(\<Sum>y < unat (buffer_height b). \<Sum>x < unat (buffer_width b). unat lo) \<le> channel_total b c"
    unfolding channel_total_def by (intro sum_mono byte) simp_all
  then show "unat (buffer_width b) * unat (buffer_height b) * unat lo \<le> channel_total b c"
    by (simp add: algebra_simps)
  have "channel_total b c \<le> (\<Sum>y < unat (buffer_height b). \<Sum>x < unat (buffer_width b). unat hi)"
    unfolding channel_total_def by (intro sum_mono byte) simp_all
  then show "channel_total b c \<le> unat (buffer_width b) * unat (buffer_height b) * unat hi"
    by (simp add: algebra_simps)
qed

lemma mean_between:
  assumes "n = unat (buffer_width b) * unat (buffer_height b)" and "0 < n" and "n \<le> 65793"
    and "bytes_between b c lo hi"
  shows "fdiv binary32 (u32_to_float (of_nat (channel_total b c))) (u32_to_float (of_nat n))
       \<in> {Fin (of_nat (unat lo)) .. Fin (of_nat (unat hi))}"
  using mean_bounds [OF assms(2,3), of "unat lo" "channel_total b c" "unat hi"]
    channel_total_between [OF assms(4)] byte_le [of hi]
  by (simp add: assms(1) del: of_nat_unat)

lemma captured_means:
  assumes "n = unat (buffer_width b) * unat (buffer_height b)"
    and "\<forall>args. captureDisplay args = Captured True b"
  shows "getAreaBrightness (d # displays) token getWidth getHeight captureDisplay area
       = Some (Status_ok, Some
          (fdiv binary32 (u32_to_float (of_nat (channel_total b 0))) (u32_to_float (of_nat n)),
           fdiv binary32 (u32_to_float (of_nat (channel_total b 1))) (u32_to_float (of_nat n)),
           fdiv binary32 (u32_to_float (of_nat (channel_total b 2))) (u32_to_float (of_nat n))))"
proof -
  have "buffer_width b * buffer_height b = of_nat n" by (simp add: assms(1))
  then show ?thesis
    using assms(2)
    by (simp add: getAreaBrightness_def getInternalDisplayToken_def mean_colour_def sum_pixels_totals
        Let_def)
qed

text \<open>A picture of one colour is measured exactly.\<close>

lemma uniform_area_exact:
  assumes "n = unat (buffer_width b) * unat (buffer_height b)" and "0 < n" and "n \<le> 65793"
    and "\<forall>y < unat (buffer_height b). \<forall>x < unat (buffer_width b).
           out b (byte_index b y x 0) = r \<and> out b (byte_index b y x 1) = g
           \<and> out b (byte_index b y x 2) = v"
    and "\<forall>args. captureDisplay args = Captured True b"
  shows "getAreaBrightness (d # displays) token getWidth getHeight captureDisplay area
       = Some (Status_ok, Some (Fin (of_nat (unat r)), Fin (of_nat (unat g)), Fin (of_nat (unat v))))"
proof -
  have "bytes_between b 0 r r" "bytes_between b 1 g g" "bytes_between b 2 v v"
    using assms(4) by (simp_all add: bytes_between_def)
  note this [THEN mean_between [OF assms(1-3)]]
  then show ?thesis unfolding captured_means [OF assms(1,5)] by (simp del: of_nat_unat)
qed

text \<open>
  C39: the means lie where they should.  If the area has at most 65793 pixels and the bytes of a
  colour of all of them lie between two values, the capture succeeds and the mean of this
  colour, although computed with rounding, lies between the same values; so every mean is a
  number from 0 to 255, and a picture of one colour is measured exactly.
\<close>

theorem area_mean_within_bytes:
  assumes "n = unat (buffer_width b) * unat (buffer_height b)" and "0 < n" and "n \<le> 65793"
    and "bytes_between b 0 rlo rhi" and "bytes_between b 1 glo ghi" and "bytes_between b 2 blo bhi"
    and "\<forall>args. captureDisplay args = Captured True b"
  shows "\<exists>r g v. getAreaBrightness (d # displays) token getWidth getHeight captureDisplay area
           = Some (Status_ok, Some (r, g, v))
       \<and> r \<in> {Fin (of_nat (unat rlo)) .. Fin (of_nat (unat rhi))}
       \<and> g \<in> {Fin (of_nat (unat glo)) .. Fin (of_nat (unat ghi))}
       \<and> v \<in> {Fin (of_nat (unat blo)) .. Fin (of_nat (unat bhi))}"
  unfolding captured_means [OF assms(1,7)]
  using mean_between [OF assms(1-3)] assms(4-6) by blast

definition grey_buffer :: buffer where
  "grey_buffer = \<lparr>buffer_width = 3, buffer_height = 2, buffer_stride = 4, out = (\<lambda>i. 100)\<rparr>"

theorem area_mean_within_bytes_witness:
  "\<exists>r g v. getAreaBrightness [7 :: nat] id (\<lambda>r. 3) (\<lambda>r. 2) (\<lambda>args. Captured True grey_buffer)
        \<lparr>rect_left = 5, rect_top = 1, rect_right = 8, rect_bottom = 3\<rparr>
      = Some (Status_ok, Some (r, g, v))
    \<and> r \<in> {Fin (of_nat (unat (100 :: 8 word))) .. Fin (of_nat (unat (100 :: 8 word)))}
    \<and> g \<in> {Fin (of_nat (unat (90 :: 8 word))) .. Fin (of_nat (unat (100 :: 8 word)))}
    \<and> v \<in> {Fin (of_nat (unat (0 :: 8 word))) .. Fin (of_nat (unat (255 :: 8 word)))}"
  by (rule area_mean_within_bytes [where n = 6 and b = grey_buffer])
    (simp_all add: grey_buffer_def bytes_between_def)

text \<open>
  A missing configuration is not noticed.  When the property is empty nothing is extracted,
  and the constructor tests what it finds in an uninitialised variable: unless that happens
  to be zero, the area is made of garbage.  A configured area that starts at the left edge
  of the display, on the other hand, aborts the service.
\<close>

lemma unset_area_not_noticed:
  "AreaCapture (g1, g2, g3, g4) []
     = (if g1 = 0 then None
        else Some \<lparr>rect_left = g1, rect_top = g2, rect_right = g3, rect_bottom = g4\<rparr>)
   \<and> AreaCapture g [Int_Field 0, Int_Field t, Int_Field r, Int_Field b] = None"
  by (simp add: AreaCapture_def case_prod_unfold Let_def)

end
