(* ===== verification/Services.thy ===== *)
theory Services
  imports Area_Capture
begin

text \<open>
  The two \<open>main\<close> functions: \<open>sensors/service.cpp\<close> and \<open>als/default/main.cpp\<close>.  The calls they
  make to the system are logged in order; whether they succeed, and whether the threads of
  the pool ever end, are inputs.
\<close>

subsection \<open>How a program ends\<close>

text \<open>\<open>Serving\<close>: the main thread has joined the pool and stays there.\<close>

datatype ending = Exit int | Abort | Serving

datatype system_call =
    CONFIGURE_RPC_THREADPOOL nat bool
  | CONSTRUCT_HAL_PROXY
  | REGISTER_AS_SERVICE
  | JOIN_RPC_THREADPOOL
  | SET_MAX_THREADS nat
  | START_THREADPOOL
  | CONSTRUCT_AREA_CAPTURE
  | ADD_SERVICE string
  | JOIN_THREADPOOL

text \<open>\<open>EXIT_FAILURE\<close> of the C library of the system.\<close>

definition EXIT_FAILURE :: int where
  "EXIT_FAILURE = 1"

definition joined :: "bool \<Rightarrow> int \<Rightarrow> ending" where
  "joined pool_ends code = (if pool_ends then Exit code else Serving)"

subsection \<open>The sensors service\<close>

definition sensors_main :: "bool \<Rightarrow> bool \<Rightarrow> system_call list \<times> ending" where
  "sensors_main registerAsService_ok pool_ends =
     (let log = [CONFIGURE_RPC_THREADPOOL 1 True, CONSTRUCT_HAL_PROXY, REGISTER_AS_SERVICE]
      in if \<not> registerAsService_ok then (log, Exit (- 1))
         else (log @ [JOIN_RPC_THREADPOOL], joined pool_ends 1))"

subsection \<open>The area capture service\<close>

text \<open>\<open>CHECK_EQ\<close> aborts; so does the constructor if it finds no area.\<close>

definition area_main :: "int \<times> int \<times> int \<times> int \<Rightarrow> int_extraction list \<Rightarrow> string \<Rightarrow> bool \<Rightarrow> bool
    \<Rightarrow> system_call list \<times> ending" where
  "area_main uninitialised property descriptor addService_ok pool_ends =
     (let log = [SET_MAX_THREADS 0, START_THREADPOOL, CONSTRUCT_AREA_CAPTURE]
      in case AreaCapture uninitialised property of
           None \<Rightarrow> (log, Abort)
         | Some ac \<Rightarrow>
             let log = log @ [ADD_SERVICE (descriptor @ ''/default'')]
             in if \<not> addService_ok then (log, Abort)
                else (log @ [JOIN_THREADPOOL], joined pool_ends EXIT_FAILURE))"

subsection \<open>Properties\<close>

text \<open>
  Neither service ends well or serves what it could not set up.  Neither program ever exits
  with success; the sensors service joins the pool, on which the framework's calls arrive,
  only if it could register; the area service only if it has an area that does not start at
  the left edge and could register.
\<close>

lemma services_serve_only_registered:
  "snd (sensors_main reg ends) \<noteq> Exit 0 \<and> snd (area_main u prop desc reg ends) \<noteq> Exit 0
   \<and> (JOIN_RPC_THREADPOOL \<in> set (fst (sensors_main reg ends)) \<longleftrightarrow> reg)
   \<and> (JOIN_THREADPOOL \<in> set (fst (area_main u prop desc reg ends))
        \<longleftrightarrow> reg \<and> (\<exists>area. AreaCapture u prop = Some area \<and> rect_left area \<noteq> 0))"
proof -
  have "rect_left area \<noteq> 0" if "AreaCapture u prop = Some area" for area
    using that by (auto simp: AreaCapture_def case_prod_unfold Let_def split: if_splits)
  then show ?thesis
    by (auto simp: sensors_main_def area_main_def joined_def EXIT_FAILURE_def Let_def split: option.split)
qed

end
