(* ===== verification/Camera_Motor.thy ===== *)
theory Camera_Motor
  imports Fifo_Spec
begin

text \<open>
  The camera helper, an application in Java beside the HAL: \<open>CameraMotorController.java\<close> drives
  the motor of the pop-up front camera through files of the kernel, and
  \<open>CameraMotorService.java\<close> raises and lowers the camera when it is opened and closed, 100 ms
  after the fact, so that a quick reversal need not move it twice.

  The Android classes it uses are outside the repository.  What reading and writing a file
  does is an argument (\<open>files\<close>), the two clocks are read by the caller, and the queue of
  messages of \<open>android.os.Handler\<close> is an argument too (\<open>message_queue\<close>), with its documented
  behaviour as a hypothesis (\<open>message_queue_laws\<close>).  All callbacks of the service run on the
  main thread of the application, one after the other.
\<close>

subsection \<open>The motor's files\<close>

definition CAMERA_MOTOR_ENABLE_PATH :: string where
  "CAMERA_MOTOR_ENABLE_PATH = ''/sys/class/motor/enable''"

definition CAMERA_MOTOR_HALL_CALIBRATION :: string where
  "CAMERA_MOTOR_HALL_CALIBRATION = ''/sys/class/motor/hall_calibration''"

definition CAMERA_MOTOR_DIRECTION_PATH :: string where
  "CAMERA_MOTOR_DIRECTION_PATH = ''/sys/class/motor/direction''"

definition CAMERA_MOTOR_POSITION_PATH :: string where
  "CAMERA_MOTOR_POSITION_PATH = ''/sys/class/motor/position''"

definition CAMERA_PERSIST_HALL_CALIBRATION :: string where
  "CAMERA_PERSIST_HALL_CALIBRATION = ''/mnt/vendor/persist/engineermode/hall_calibration''"

definition HALL_CALIBRATION_DEFAULT :: string where
  "HALL_CALIBRATION_DEFAULT = ''170,170,480,0,0,480,500,0,0,500,1500''"

definition DIRECTION_DOWN :: string where "DIRECTION_DOWN = ''0''"

definition DIRECTION_UP :: string where "DIRECTION_UP = ''1''"

definition ENABLED :: string where "ENABLED = ''1''"

definition POSITION_DOWN :: string where "POSITION_DOWN = ''1''"

definition POSITION_UP :: string where "POSITION_UP = ''0''"

lemmas motor_paths = CAMERA_MOTOR_ENABLE_PATH_def CAMERA_MOTOR_HALL_CALIBRATION_def
  CAMERA_MOTOR_DIRECTION_PATH_def

text \<open>
  \<open>FileUtils\<close>: what reading a file gives, up to a length, and whether writing a string to a
  file succeeds; \<open>None\<close> and \<open>False\<close> are an \<open>IOException\<close>.  The successful writes are kept in
  their order.
\<close>

record files =
  readTextFile :: "string \<Rightarrow> int \<Rightarrow> string option"
  stringToFile :: "string \<Rightarrow> string \<Rightarrow> bool"

record motor_files =
  file_writes :: "(string \<times> string) list"

definition write_file :: "files \<Rightarrow> string \<Rightarrow> string \<Rightarrow> 'a motor_files_scheme \<Rightarrow> 'a motor_files_scheme" where
  "write_file fs path string s =
     (if stringToFile fs path string then s\<lparr>file_writes := file_writes s @ [(path, string)]\<rparr> else s)"

definition calibrate :: "files \<Rightarrow> 'a motor_files_scheme \<Rightarrow> 'a motor_files_scheme" where
  "calibrate fs s =
     (let calibrationData =
            (case readTextFile fs CAMERA_PERSIST_HALL_CALIBRATION 0 of
               Some string \<Rightarrow> string
             | None \<Rightarrow> HALL_CALIBRATION_DEFAULT)
      in write_file fs CAMERA_MOTOR_HALL_CALIBRATION calibrationData s)"

definition setMotorDirection :: "files \<Rightarrow> string \<Rightarrow> 'a motor_files_scheme \<Rightarrow> 'a motor_files_scheme" where
  "setMotorDirection fs direction s = write_file fs CAMERA_MOTOR_DIRECTION_PATH direction s"

definition setMotorEnabled :: "files \<Rightarrow> 'a motor_files_scheme \<Rightarrow> 'a motor_files_scheme" where
  "setMotorEnabled fs s = write_file fs CAMERA_MOTOR_ENABLE_PATH ENABLED s"

text \<open>\<open>None\<close> is \<open>null\<close>.\<close>

definition getMotorPosition :: "files \<Rightarrow> string option" where
  "getMotorPosition fs = readTextFile fs CAMERA_MOTOR_POSITION_PATH 1"

subsection \<open>The queue of messages\<close>

text \<open>
  What the service uses of a \<open>Handler\<close>: asking for, removing and sending messages, and what
  the looper hands to \<open>handleMessage\<close> next.  The time is the one of the \<open>uptimeMillis\<close> clock.
\<close>

record 'q message_queue =
  hasMessages :: "int \<Rightarrow> 'q \<Rightarrow> bool"
  removeMessages :: "int \<Rightarrow> 'q \<Rightarrow> 'q"
  sendEmptyMessageDelayed :: "int \<Rightarrow> int \<Rightarrow> int \<Rightarrow> 'q \<Rightarrow> 'q"
  nextMessage :: "int \<Rightarrow> 'q \<Rightarrow> (int \<times> 'q) option"

text \<open>
  The documented behaviour, in terms of the pending messages with the times at which they are
  due: a message is delivered no earlier than its time, messages in the order of their times,
  and those of the same time in the order in which they were sent.
\<close>

definition message_queue_laws :: "'q message_queue \<Rightarrow> ('q \<Rightarrow> (int \<times> int) list) \<Rightarrow> bool" where
  "message_queue_laws H pending \<longleftrightarrow>
     (\<forall>what q. hasMessages H what q \<longleftrightarrow> what \<in> snd ` set (pending q))
     \<and> (\<forall>what q. pending (removeMessages H what q) = filter (\<lambda>m. snd m \<noteq> what) (pending q))
     \<and> (\<forall>now what delay q. pending (sendEmptyMessageDelayed H now what delay q)
          = takeWhile (\<lambda>m. fst m \<le> now + delay) (pending q) @ (now + delay, what)
            # dropWhile (\<lambda>m. fst m \<le> now + delay) (pending q))
     \<and> (\<forall>now what q q'. nextMessage H now q = Some (what, q') \<longrightarrow>
          (\<exists>due. due \<le> now \<and> pending q = (due, what) # pending q'))
     \<and> (\<forall>now q. nextMessage H now q = None \<longleftrightarrow>
          (case pending q of [] \<Rightarrow> True | (due, _) # _ \<Rightarrow> now < due))"

lemma message_queue_rules:
  assumes "message_queue_laws H pending"
  shows "hasMessages H what q \<longleftrightarrow> what \<in> snd ` set (pending q)"
    and "pending (removeMessages H what q) = filter (\<lambda>m. snd m \<noteq> what) (pending q)"
    and "nextMessage H now q = Some (what, q') \<Longrightarrow> \<exists>due. due \<le> now \<and> pending q = (due, what) # pending q'"
    and "pending q = (due, what') # ms \<Longrightarrow> due \<le> now \<Longrightarrow> nextMessage H now q \<noteq> None"
  using assms by (auto simp: message_queue_laws_def)

lemma message_sent_last:
  assumes "message_queue_laws H pending" and "\<forall>m\<in>set (pending q). fst m \<le> now + delay"
  shows "pending (sendEmptyMessageDelayed H now what delay q) = pending q @ [(now + delay, what)]"
proof -
  have "takeWhile (\<lambda>m. fst m \<le> now + delay) (pending q) = pending q"
    "dropWhile (\<lambda>m. fst m \<le> now + delay) (pending q) = []"
    using assms(2) by (simp_all add: takeWhile_eq_all_conv dropWhile_eq_Nil_conv)
  then show ?thesis using assms(1) by (simp add: message_queue_laws_def)
qed

subsection \<open>The service\<close>

definition CAMERA_EVENT_DELAY_TIME :: int where "CAMERA_EVENT_DELAY_TIME = 100"

definition FRONT_CAMERA_ID :: string where "FRONT_CAMERA_ID = ''1''"

definition MSG_CAMERA_CLOSED :: int where "MSG_CAMERA_CLOSED = 1000"

definition MSG_CAMERA_OPEN :: int where "MSG_CAMERA_OPEN = 1001"

lemmas service_constants = CAMERA_EVENT_DELAY_TIME_def FRONT_CAMERA_ID_def MSG_CAMERA_CLOSED_def
  MSG_CAMERA_OPEN_def

record 'q motor_service = motor_files +
  callback_registered :: bool
  mHandler :: 'q
  mClosedEvent :: int
  mOpenEvent :: int

text \<open>
  The two callbacks.  Each reads \<open>elapsedRealtime\<close> twice, \<open>now\<close> and \<open>now'\<close>; \<open>uptime\<close> is the clock
  of the handler, which does not count the time the device sleeps.
\<close>

definition onCameraAvailable :: "'q message_queue \<Rightarrow> int \<Rightarrow> int \<Rightarrow> int \<Rightarrow> string
    \<Rightarrow> ('q, 'z) motor_service_scheme \<Rightarrow> ('q, 'z) motor_service_scheme" where
  "onCameraAvailable H now now' uptime cameraId s =
     (if cameraId = FRONT_CAMERA_ID then
        let s = s\<lparr>mClosedEvent := now\<rparr>;
            s = (if now' - mOpenEvent s < CAMERA_EVENT_DELAY_TIME
                    \<and> hasMessages H MSG_CAMERA_OPEN (mHandler s)
                 then s\<lparr>mHandler := removeMessages H MSG_CAMERA_OPEN (mHandler s)\<rparr> else s)
        in s\<lparr>mHandler := sendEmptyMessageDelayed H uptime MSG_CAMERA_CLOSED CAMERA_EVENT_DELAY_TIME
                          (mHandler s)\<rparr>
      else s)"

definition onCameraUnavailable :: "'q message_queue \<Rightarrow> int \<Rightarrow> int \<Rightarrow> int \<Rightarrow> string
    \<Rightarrow> ('q, 'z) motor_service_scheme \<Rightarrow> ('q, 'z) motor_service_scheme" where
  "onCameraUnavailable H now now' uptime cameraId s =
     (if cameraId = FRONT_CAMERA_ID then
        let s = s\<lparr>mOpenEvent := now\<rparr>;
            s = (if now' - mClosedEvent s < CAMERA_EVENT_DELAY_TIME
                    \<and> hasMessages H MSG_CAMERA_CLOSED (mHandler s)
                 then s\<lparr>mHandler := removeMessages H MSG_CAMERA_CLOSED (mHandler s)\<rparr> else s)
        in s\<lparr>mHandler := sendEmptyMessageDelayed H uptime MSG_CAMERA_OPEN CAMERA_EVENT_DELAY_TIME
                          (mHandler s)\<rparr>
      else s)"

definition handleMessage :: "files \<Rightarrow> int \<Rightarrow> 'a motor_files_scheme \<Rightarrow> bool \<times> 'a motor_files_scheme" where
  "handleMessage fs what s =
     (True,
      if what = MSG_CAMERA_CLOSED then setMotorEnabled fs (setMotorDirection fs DIRECTION_DOWN s)
      else if what = MSG_CAMERA_OPEN then setMotorEnabled fs (setMotorDirection fs DIRECTION_UP s)
      else s)"

text \<open>
  \<open>onCreate\<close> calibrates the sensor and registers the callbacks with the camera manager;
  \<open>onStartCommand\<close> and \<open>onDestroy\<close> do nothing of their own, so the callbacks stay registered.
\<close>

definition onCreate :: "files \<Rightarrow> ('q, 'z) motor_service_scheme \<Rightarrow> ('q, 'z) motor_service_scheme" where
  "onCreate fs s = (calibrate fs s)\<lparr>callback_registered := True\<rparr>"

subsection \<open>Runs of the service\<close>

text \<open>
  The service and its two clocks.  Cameras are opened and closed at any time after the callbacks
  are registered, \<open>d\<close> is the time
  that passes within a callback, messages are handled when they are due or later, and time
  passes, on the clock of the handler (\<open>u\<close>) perhaps more slowly.
\<close>

record 'q camera_system = "'q motor_service" +
  uptime :: int
  elapsed :: int

datatype camera_label = OPENED | CLOSED | HANDLED int | QUIET

inductive camera_step :: "'q message_queue \<Rightarrow> files
    \<Rightarrow> 'q camera_system \<Rightarrow> camera_label \<Rightarrow> 'q camera_system \<Rightarrow> bool" for H fs where
  available: "callback_registered s \<Longrightarrow> 0 \<le> d \<Longrightarrow>
     camera_step H fs s (if cameraId = FRONT_CAMERA_ID then CLOSED else QUIET)
       (onCameraAvailable H (elapsed s) (elapsed s + d) (uptime s) cameraId s)"
| unavailable: "callback_registered s \<Longrightarrow> 0 \<le> d \<Longrightarrow>
     camera_step H fs s (if cameraId = FRONT_CAMERA_ID then OPENED else QUIET)
       (onCameraUnavailable H (elapsed s) (elapsed s + d) (uptime s) cameraId s)"
| message: "nextMessage H (uptime s) (mHandler s) = Some (what, q) \<Longrightarrow>
     camera_step H fs s (HANDLED what) (snd (handleMessage fs what (s\<lparr>mHandler := q\<rparr>)))"
| pass: "0 \<le> u \<Longrightarrow> u \<le> e \<Longrightarrow>
     camera_step H fs s QUIET (s\<lparr>uptime := uptime s + u, elapsed := elapsed s + e\<rparr>)"

abbreviation camera_run :: "'q message_queue \<Rightarrow> files
    \<Rightarrow> 'q camera_system \<Rightarrow> camera_label list \<Rightarrow> 'q camera_system \<Rightarrow> bool" where
  "camera_run H fs \<equiv> run (camera_step H fs)"

text \<open>The message each camera event stands for, and the messages that were handled.\<close>

fun asked_by :: "camera_label \<Rightarrow> int list" where
  "asked_by OPENED = [MSG_CAMERA_OPEN]"
| "asked_by CLOSED = [MSG_CAMERA_CLOSED]"
| "asked_by _ = []"

fun handled_by :: "camera_label \<Rightarrow> int list" where
  "handled_by (HANDLED what) = [what]"
| "handled_by _ = []"

definition asked :: "camera_label list \<Rightarrow> int list" where
  "asked ls = concat (map asked_by ls)"

definition handled :: "camera_label list \<Rightarrow> int list" where
  "handled ls = concat (map handled_by ls)"

lemma asked_simps [simp]:
  "asked [] = []" "asked (ls @ ls') = asked ls @ asked ls'" "asked (l # ls) = asked_by l @ asked ls"
  "handled [] = []" "handled (ls @ ls') = handled ls @ handled ls'"
  "handled (l # ls) = handled_by l @ handled ls"
  by (simp_all add: asked_def handled_def)

text \<open>
  What the motor does: writing to the enable file starts it in the direction that was written
  last (\<open>d\<close> if none was).
\<close>

fun moves :: "string \<Rightarrow> (string \<times> string) list \<Rightarrow> string list" where
  "moves d [] = []"
| "moves d ((path, x) # ws) =
     (if path = CAMERA_MOTOR_DIRECTION_PATH then moves x ws
      else if path = CAMERA_MOTOR_ENABLE_PATH then d # moves d ws
      else moves d ws)"

definition move :: "string \<Rightarrow> (string \<times> string) list" where
  "move direction = [(CAMERA_MOTOR_DIRECTION_PATH, direction), (CAMERA_MOTOR_ENABLE_PATH, ENABLED)]"

lemma moves_move: "moves d (ws @ move x) = moves d ws @ [x]"
  by (induction d ws rule: moves.induct) (simp_all add: move_def motor_paths)

text \<open>Files that can be written.\<close>

definition writable :: "files \<Rightarrow> bool" where
  "writable fs \<longleftrightarrow>
     list_all (\<lambda>(path, x). stringToFile fs path x) (move DIRECTION_DOWN @ move DIRECTION_UP)"

lemma move_written:
  assumes "writable fs" and "x = DIRECTION_DOWN \<or> x = DIRECTION_UP"
  shows "file_writes (setMotorEnabled fs (setMotorDirection fs x s)) = file_writes s @ move x"
  using assms by (auto simp: writable_def move_def setMotorEnabled_def setMotorDirection_def write_file_def)

definition direction_for :: "int \<Rightarrow> string" where
  "direction_for what = (if what = MSG_CAMERA_OPEN then DIRECTION_UP else DIRECTION_DOWN)"

subsection \<open>What a step does to the messages\<close>

text \<open>The messages are those of the service, and due within 100 ms.\<close>

definition camera_inv :: "('q \<Rightarrow> (int \<times> int) list) \<Rightarrow> 'q camera_system \<Rightarrow> bool" where
  "camera_inv pending s \<longleftrightarrow> (\<forall>m\<in>set (pending (mHandler s)).
     fst m \<le> uptime s + CAMERA_EVENT_DELAY_TIME \<and> (snd m = MSG_CAMERA_OPEN \<or> snd m = MSG_CAMERA_CLOSED))"

lemma handle_frame [simp]:
  fixes s :: "('q, 'z) motor_service_scheme"
  shows "mHandler (snd (handleMessage fs what s)) = mHandler s"
    and "mClosedEvent (snd (handleMessage fs what s)) = mClosedEvent s"
    and "mOpenEvent (snd (handleMessage fs what s)) = mOpenEvent s"
  by (simp_all add: handleMessage_def setMotorEnabled_def setMotorDirection_def write_file_def)

lemma handle_clocks [simp]:
  fixes s :: "'q camera_system"
  shows "uptime (snd (handleMessage fs what s)) = uptime s"
    and "elapsed (snd (handleMessage fs what s)) = elapsed s"
  by (simp_all add: handleMessage_def setMotorEnabled_def setMotorDirection_def write_file_def)

lemma handle_writes:
  assumes "writable fs" and "what = MSG_CAMERA_OPEN \<or> what = MSG_CAMERA_CLOSED"
  shows "file_writes (snd (handleMessage fs what s)) = file_writes s @ move (direction_for what)"
  using assms by (auto simp: handleMessage_def move_written direction_for_def service_constants)

lemma event_frame [simp]:
  fixes s :: "'q camera_system"
  shows "file_writes (onCameraAvailable H now now' up c s) = file_writes s"
    and "uptime (onCameraAvailable H now now' up c s) = uptime s"
    and "elapsed (onCameraAvailable H now now' up c s) = elapsed s"
    and "file_writes (onCameraUnavailable H now now' up c s) = file_writes s"
    and "uptime (onCameraUnavailable H now now' up c s) = uptime s"
    and "elapsed (onCameraUnavailable H now now' up c s) = elapsed s"
  by (simp_all add: onCameraAvailable_def onCameraUnavailable_def Let_def)

text \<open>A callback for the front camera withdraws opposite messages if it comes early enough.\<close>

lemma event_pending:
  fixes s :: "'q camera_system"
  assumes laws: "message_queue_laws H pending" and inv: "camera_inv pending s"
  shows "pending (mHandler (onCameraAvailable H now now' (uptime s) FRONT_CAMERA_ID s))
      = (if now' - mOpenEvent s < CAMERA_EVENT_DELAY_TIME
         then filter (\<lambda>m. snd m \<noteq> MSG_CAMERA_OPEN) (pending (mHandler s)) else pending (mHandler s))
        @ [(uptime s + CAMERA_EVENT_DELAY_TIME, MSG_CAMERA_CLOSED)]"
    and "pending (mHandler (onCameraUnavailable H now now' (uptime s) FRONT_CAMERA_ID s))
      = (if now' - mClosedEvent s < CAMERA_EVENT_DELAY_TIME
         then filter (\<lambda>m. snd m \<noteq> MSG_CAMERA_CLOSED) (pending (mHandler s)) else pending (mHandler s))
        @ [(uptime s + CAMERA_EVENT_DELAY_TIME, MSG_CAMERA_OPEN)]"
proof -
  let ?q = "mHandler s"
  have removed: "pending (if b \<and> hasMessages H what ?q then removeMessages H what ?q else ?q)
      = (if b then filter (\<lambda>m. snd m \<noteq> what) (pending ?q) else pending ?q)" for b what
    using message_queue_rules(1,2) [OF laws, of what ?q]
    by (auto simp: image_iff intro!: filter_True [symmetric])
  have due: "\<forall>m\<in>set (pending (if b \<and> hasMessages H what ?q then removeMessages H what ?q else ?q)).
      fst m \<le> uptime s + CAMERA_EVENT_DELAY_TIME" for b what
    unfolding removed using inv by (simp add: camera_inv_def)
  show "pending (mHandler (onCameraAvailable H now now' (uptime s) FRONT_CAMERA_ID s))
      = (if now' - mOpenEvent s < CAMERA_EVENT_DELAY_TIME
         then filter (\<lambda>m. snd m \<noteq> MSG_CAMERA_OPEN) (pending (mHandler s)) else pending (mHandler s))
        @ [(uptime s + CAMERA_EVENT_DELAY_TIME, MSG_CAMERA_CLOSED)]"
    using message_sent_last [OF laws due] removed
    by (simp add: onCameraAvailable_def Let_def if_distrib [of mHandler] cong: if_cong)
  show "pending (mHandler (onCameraUnavailable H now now' (uptime s) FRONT_CAMERA_ID s))
      = (if now' - mClosedEvent s < CAMERA_EVENT_DELAY_TIME
         then filter (\<lambda>m. snd m \<noteq> MSG_CAMERA_CLOSED) (pending (mHandler s)) else pending (mHandler s))
        @ [(uptime s + CAMERA_EVENT_DELAY_TIME, MSG_CAMERA_OPEN)]"
    using message_sent_last [OF laws due] removed
    by (simp add: onCameraUnavailable_def Let_def if_distrib [of mHandler] cong: if_cong)
qed

lemma other_camera [simp]:
  assumes "cameraId \<noteq> FRONT_CAMERA_ID"
  shows "onCameraAvailable H now now' up cameraId s = s"
    and "onCameraUnavailable H now now' up cameraId s = s"
  using assms by (simp_all add: onCameraAvailable_def onCameraUnavailable_def)

text \<open>A step of the service, seen on its messages.\<close>

lemma camera_step_cases:
  assumes "camera_step H fs s l t" and "message_queue_laws H pending" and "camera_inv pending s"
  obtains (event) what keep where "asked_by l = [what]" "handled_by l = []" "what = MSG_CAMERA_OPEN \<or> what = MSG_CAMERA_CLOSED"
      "pending (mHandler t) = filter keep (pending (mHandler s)) @ [(uptime s + CAMERA_EVENT_DELAY_TIME, what)]"
      "file_writes t = file_writes s" "uptime t = uptime s"
  | (message) due what where "asked_by l = []" "l = HANDLED what" "due \<le> uptime s"
      "pending (mHandler s) = (due, what) # pending (mHandler t)" "uptime t = uptime s"
      "file_writes t = file_writes (snd (handleMessage fs what s))"
  | (quiet) "asked_by l = []" "handled_by l = []" "mHandler t = mHandler s" "uptime s \<le> uptime t"
      "file_writes t = file_writes s"
  using assms(1)
proof (cases rule: camera_step.cases)
  case (available d cameraId)
  show thesis
  proof (cases "cameraId = FRONT_CAMERA_ID")
    case True
    with available event_pending(1) [OF assms(2,3), of "elapsed s" "elapsed s + d"] show thesis
      by (intro event [of MSG_CAMERA_CLOSED "\<lambda>m. \<not> (elapsed s + d - mOpenEvent s < CAMERA_EVENT_DELAY_TIME)
            \<or> snd m \<noteq> MSG_CAMERA_OPEN"]) simp_all
  qed (use available in \<open>auto intro: quiet\<close>)
next
  case (unavailable d cameraId)
  show thesis
  proof (cases "cameraId = FRONT_CAMERA_ID")
    case True
    with unavailable event_pending(2) [OF assms(2,3), of "elapsed s" "elapsed s + d"] show thesis
      by (intro event [of MSG_CAMERA_OPEN "\<lambda>m. \<not> (elapsed s + d - mClosedEvent s < CAMERA_EVENT_DELAY_TIME)
            \<or> snd m \<noteq> MSG_CAMERA_CLOSED"]) simp_all
  qed (use unavailable in \<open>auto intro: quiet\<close>)
next
  case (message what q)
  obtain due where "due \<le> uptime s" "pending (mHandler s) = (due, what) # pending q"
    using message_queue_rules(3) [OF assms(2) message(3)] by blast
  moreover have "file_writes t = file_writes (snd (handleMessage fs what s))"
    using message(2) by (simp add: handleMessage_def setMotorEnabled_def setMotorDirection_def write_file_def)
  ultimately show thesis using message(1,2) by (intro that(2)) simp_all
next
  case (pass u e)
  then show thesis by (intro quiet) simp_all
qed

lemma camera_inv_step:
  assumes "camera_step H fs s l t" and "message_queue_laws H pending" and "camera_inv pending s"
  shows "camera_inv pending t"
  using assms
proof (cases rule: camera_step_cases)
  case (event what keep)
  then show ?thesis using assms(3) by (auto simp: camera_inv_def service_constants)
next
  case (message due what)
  then show ?thesis using assms(3) by (simp add: camera_inv_def)
next
  case quiet
  then show ?thesis using assms(3) by (fastforce simp: camera_inv_def)
qed

text \<open>The last event wins: its message is the last one handled or pending.\<close>

definition last_event_wins :: "('q \<Rightarrow> (int \<times> int) list) \<Rightarrow> camera_label list \<Rightarrow> 'q camera_system \<Rightarrow> bool" where
  "last_event_wins pending ls s \<longleftrightarrow> (asked ls \<noteq> [] \<longrightarrow>
     handled ls @ map snd (pending (mHandler s)) \<noteq> []
     \<and> last (handled ls @ map snd (pending (mHandler s))) = last (asked ls))"

lemma camera_run_facts:
  assumes "camera_run H fs s ls t" and "message_queue_laws H pending" and "pending (mHandler s) = []"
    and "writable fs"
  shows "camera_inv pending t \<and> last_event_wins pending ls t
    \<and> (\<exists>ws. file_writes t = file_writes s @ ws \<and> (\<forall>d. moves d ws = map direction_for (handled ls)))"
  using assms
proof (induction rule: run.induct)
  case (none s)
  then show ?case
    by (auto simp: camera_inv_def last_event_wins_def intro: exI [of _ "[]"])
next
  case (some s ls t l u)
  then obtain ws where inv: "camera_inv pending t" and wins: "last_event_wins pending ls t"
    and ws: "file_writes t = file_writes s @ ws" "\<And>d. moves d ws = map direction_for (handled ls)"
    by blast
  have "camera_inv pending u"
    by (rule camera_inv_step [OF some.hyps(2) some.prems(1) inv])
  moreover have "last_event_wins pending (ls @ [l]) u
      \<and> (\<exists>ws. file_writes u = file_writes s @ ws \<and> (\<forall>d. moves d ws = map direction_for (handled (ls @ [l]))))"
    using some.hyps(2) some.prems(1) inv
  proof (cases rule: camera_step_cases)
    case (event what keep)
    then show ?thesis using ws by (simp add: last_event_wins_def)
  next
    case (message due what)
    have "what = MSG_CAMERA_OPEN \<or> what = MSG_CAMERA_CLOSED"
      using inv message(4) by (auto simp: camera_inv_def)
    then have "file_writes u = file_writes s @ ws @ move (direction_for what)"
      using message(6) ws(1) some.prems(3) by (simp add: handle_writes)
    moreover have "last_event_wins pending (ls @ [l]) u"
      using wins message by (auto simp: last_event_wins_def split: if_splits)
    ultimately show ?thesis
      using message(2) ws(2) by (auto simp: moves_move)
  next
    case quiet
    then show ?thesis using ws wins by (simp add: last_event_wins_def)
  qed
  ultimately show ?case by blast
qed

text \<open>Without further events, all messages are handled.\<close>

lemma messages_drained:
  assumes "message_queue_laws H pending" and "\<forall>m\<in>set (pending (mHandler s)). fst m \<le> uptime s"
  shows "\<exists>ls t. camera_run H fs s ls t \<and> asked ls = [] \<and> pending (mHandler t) = []"
  using assms(2)
proof (induction "pending (mHandler s)" arbitrary: s)
  case Nil
  then show ?case by (metis run.none asked_simps(1))
next
  case (Cons m ms)
  obtain due what' where m: "pending (mHandler s) = (due, what') # ms" "due \<le> uptime s"
    using Cons.hyps(2) Cons.prems by (metis list.set_intros(1) prod.collapse)
  then obtain what q where next_message: "nextMessage H (uptime s) (mHandler s) = Some (what, q)"
    using message_queue_rules(4) [OF assms(1) m(1,2)] by auto
  let ?t = "snd (handleMessage fs what (s\<lparr>mHandler := q\<rparr>))"
  have q: "pending q = ms"
    using message_queue_rules(3) [OF assms(1) next_message] m(1) by auto
  have step: "camera_run H fs s [HANDLED what] ?t"
    by (rule run_one, rule camera_step.message [OF next_message])
  have "\<exists>ls t. camera_run H fs ?t ls t \<and> asked ls = [] \<and> pending (mHandler t) = []"
    using Cons.prems m(1) by (intro Cons.hyps(1)) (simp_all add: q)
  then obtain ls t where rest: "camera_run H fs ?t ls t" and "asked ls = []" "pending (mHandler t) = []"
    by blast
  moreover have "camera_run H fs s ([HANDLED what] @ ls) t"
    by (rule run_append [OF rest step])
  ultimately show ?case by (intro exI [of _ "[HANDLED what] @ ls"] exI [of _ t]) simp
qed

lemma messages_drained_later:
  assumes "message_queue_laws H pending" and "camera_inv pending s"
  shows "\<exists>ls t. camera_run H fs s ls t \<and> asked ls = [] \<and> pending (mHandler t) = []"
proof -
  let ?t = "s\<lparr>uptime := uptime s + CAMERA_EVENT_DELAY_TIME, elapsed := elapsed s + CAMERA_EVENT_DELAY_TIME\<rparr>"
  have wait: "camera_run H fs s [QUIET] ?t"
    by (rule run_one, rule camera_step.pass) (simp_all add: service_constants)
  have "\<forall>m\<in>set (pending (mHandler ?t)). fst m \<le> uptime ?t"
    using assms(2) by (simp add: camera_inv_def)
  then obtain ls t where rest: "camera_run H fs ?t ls t" and "asked ls = []" "pending (mHandler t) = []"
    using messages_drained [OF assms(1), of ?t] by blast
  moreover have "camera_run H fs s ([QUIET] @ ls) t"
    by (rule run_append [OF rest wait])
  ultimately show ?thesis by (intro exI [of _ "[QUIET] @ ls"] exI [of _ t]) simp
qed

subsection \<open>A prompt looper on a device that does not sleep\<close>

text \<open>
  Both clocks run at the same speed, callbacks take no time, and a message that is due is
  handled before time passes or another event comes.
\<close>

inductive prompt_step :: "'q message_queue \<Rightarrow> ('q \<Rightarrow> (int \<times> int) list) \<Rightarrow> files
    \<Rightarrow> 'q camera_system \<Rightarrow> camera_label \<Rightarrow> 'q camera_system \<Rightarrow> bool" for H pending fs where
  available: "callback_registered s \<Longrightarrow> \<forall>m\<in>set (pending (mHandler s)). uptime s < fst m \<Longrightarrow>
     prompt_step H pending fs s (if cameraId = FRONT_CAMERA_ID then CLOSED else QUIET)
       (onCameraAvailable H (elapsed s) (elapsed s) (uptime s) cameraId s)"
| unavailable: "callback_registered s \<Longrightarrow> \<forall>m\<in>set (pending (mHandler s)). uptime s < fst m \<Longrightarrow>
     prompt_step H pending fs s (if cameraId = FRONT_CAMERA_ID then OPENED else QUIET)
       (onCameraUnavailable H (elapsed s) (elapsed s) (uptime s) cameraId s)"
| message: "nextMessage H (uptime s) (mHandler s) = Some (what, q) \<Longrightarrow>
     prompt_step H pending fs s (HANDLED what) (snd (handleMessage fs what (s\<lparr>mHandler := q\<rparr>)))"
| pass: "0 \<le> u \<Longrightarrow> \<forall>m\<in>set (pending (mHandler s)). uptime s + u \<le> fst m \<Longrightarrow>
     prompt_step H pending fs s QUIET (s\<lparr>uptime := uptime s + u, elapsed := elapsed s + u\<rparr>)"

lemma prompt_is_step: "prompt_step H pending fs s l t \<Longrightarrow> camera_step H fs s l t"
proof (induction rule: prompt_step.induct)
  case (available s cameraId)
  then show ?case using camera_step.available [of s 0 H fs cameraId] by simp
next
  case (unavailable s cameraId)
  then show ?case using camera_step.unavailable [of s 0 H fs cameraId] by simp
qed (auto intro: camera_step.intros)

text \<open>All pending messages are for the last event, and none is due later than 100 ms after it.\<close>

definition prompt_inv :: "('q \<Rightarrow> (int \<times> int) list) \<Rightarrow> int \<Rightarrow> camera_label list \<Rightarrow> 'q camera_system \<Rightarrow> bool" where
  "prompt_inv pending k ls s \<longleftrightarrow> elapsed s = uptime s + k \<and> camera_inv pending s
     \<and> (\<forall>m\<in>set (pending (mHandler s)). asked ls \<noteq> [] \<and> snd m = last (asked ls)
          \<and> fst m + k \<le> (if snd m = MSG_CAMERA_OPEN then mOpenEvent s else mClosedEvent s)
                          + CAMERA_EVENT_DELAY_TIME)"

lemma event_times [simp]:
  "mClosedEvent (onCameraAvailable H now now' up FRONT_CAMERA_ID s) = now"
  "mOpenEvent (onCameraAvailable H now now' up FRONT_CAMERA_ID s) = mOpenEvent s"
  "mOpenEvent (onCameraUnavailable H now now' up FRONT_CAMERA_ID s) = now"
  "mClosedEvent (onCameraUnavailable H now now' up FRONT_CAMERA_ID s) = mClosedEvent s"
  by (simp_all add: onCameraAvailable_def onCameraUnavailable_def Let_def)

lemma prompt_event:
  assumes laws: "message_queue_laws H pending" and inv: "prompt_inv pending k ls s"
    and early: "\<forall>m\<in>set (pending (mHandler s)). uptime s < fst m"
  shows "prompt_inv pending k (ls @ [CLOSED])
      (onCameraAvailable H (elapsed s) (elapsed s) (uptime s) FRONT_CAMERA_ID s)"
    and "prompt_inv pending k (ls @ [OPENED])
      (onCameraUnavailable H (elapsed s) (elapsed s) (uptime s) FRONT_CAMERA_ID s)"
proof -
  have c: "camera_inv pending s" and k: "elapsed s = uptime s + k"
    using inv by (simp_all add: prompt_inv_def)
  have bound: "uptime s < fst m" "fst m + k \<le> (if snd m = MSG_CAMERA_OPEN then mOpenEvent s else mClosedEvent s)
      + CAMERA_EVENT_DELAY_TIME" if "m \<in> set (pending (mHandler s))" for m
    using that inv early unfolding prompt_inv_def by blast+
  have late: "\<not> elapsed s - mOpenEvent s < CAMERA_EVENT_DELAY_TIME \<Longrightarrow> m \<in> set (pending (mHandler s))
      \<Longrightarrow> snd m \<noteq> MSG_CAMERA_OPEN"
    "\<not> elapsed s - mClosedEvent s < CAMERA_EVENT_DELAY_TIME \<Longrightarrow> m \<in> set (pending (mHandler s))
      \<Longrightarrow> snd m = MSG_CAMERA_OPEN" for m
    using bound [of m] k by (auto split: if_splits)
  let ?a = "onCameraAvailable H (elapsed s) (elapsed s) (uptime s) FRONT_CAMERA_ID s"
  let ?u = "onCameraUnavailable H (elapsed s) (elapsed s) (uptime s) FRONT_CAMERA_ID s"
  have "camera_inv pending ?a" "camera_inv pending ?u"
    using c unfolding camera_inv_def event_frame event_pending [OF laws c]
    by (auto simp: CAMERA_EVENT_DELAY_TIME_def)
  moreover have "snd m = MSG_CAMERA_CLOSED \<and> fst m \<le> uptime s + CAMERA_EVENT_DELAY_TIME"
    if "m \<in> set (pending (mHandler ?a))" for m
    using that late(1) [of m] c unfolding event_pending(1) [OF laws c]
    by (auto simp: camera_inv_def split: if_splits)
  moreover have "snd m = MSG_CAMERA_OPEN \<and> fst m \<le> uptime s + CAMERA_EVENT_DELAY_TIME"
    if "m \<in> set (pending (mHandler ?u))" for m
    using that late(2) [of m] c unfolding event_pending(2) [OF laws c]
    by (auto simp: camera_inv_def split: if_splits)
  ultimately show "prompt_inv pending k (ls @ [CLOSED]) ?a" "prompt_inv pending k (ls @ [OPENED]) ?u"
    by (auto simp: prompt_inv_def k MSG_CAMERA_CLOSED_def MSG_CAMERA_OPEN_def)
qed

lemma prompt_inv_quiet: "prompt_inv pending k (ls @ [QUIET]) s = prompt_inv pending k ls s"
  by (simp add: prompt_inv_def)

lemma prompt_inv_fewer:
  assumes "prompt_inv pending k ls s" and "set (pending (mHandler t)) \<subseteq> set (pending (mHandler s))"
    and "elapsed t = elapsed s" and "uptime t = uptime s" and "mOpenEvent t = mOpenEvent s"
    and "mClosedEvent t = mClosedEvent s" and "asked ls' = asked ls"
  shows "prompt_inv pending k ls' t"
  using assms(1,2) unfolding prompt_inv_def camera_inv_def assms(3-7) by blast

lemma prompt_inv_step:
  assumes "prompt_step H pending fs s l t" and "message_queue_laws H pending"
    and "prompt_inv pending k ls s"
  shows "prompt_inv pending k (ls @ [l]) t"
  using assms(1)
proof (cases rule: prompt_step.cases)
  case (available cameraId)
  show ?thesis
  proof (cases "cameraId = FRONT_CAMERA_ID")
    case True
    then show ?thesis using prompt_event(1) [OF assms(2,3) available(4)] available(1,2) by simp
  next
    case False
    then show ?thesis using assms(3) available(1,2) by (simp add: prompt_inv_quiet)
  qed
next
  case (unavailable cameraId)
  show ?thesis
  proof (cases "cameraId = FRONT_CAMERA_ID")
    case True
    then show ?thesis using prompt_event(2) [OF assms(2,3) unavailable(4)] unavailable(1,2) by simp
  next
    case False
    then show ?thesis using assms(3) unavailable(1,2) by (simp add: prompt_inv_quiet)
  qed
next
  case (message what q)
  then obtain due where "pending (mHandler s) = (due, what) # pending q"
    using message_queue_rules(3) [OF assms(2) message(3)] by blast
  then show ?thesis
    using message(1,2) by (intro prompt_inv_fewer [OF assms(3)]) auto
next
  case (pass u)
  then show ?thesis using assms(3) by (fastforce simp: prompt_inv_def camera_inv_def)
qed

lemma prompt_run_inv:
  assumes "run (prompt_step H pending fs) s ls t" and "message_queue_laws H pending"
    and "pending (mHandler s) = []"
  shows "prompt_inv pending (elapsed s - uptime s) ls t"
  using assms
proof (induction rule: run.induct)
  case (none s)
  then show ?case by (simp add: prompt_inv_def camera_inv_def)
next
  case (some s ls t l u)
  then show ?case by (intro prompt_inv_step) simp_all
qed

subsection \<open>Properties\<close>

text \<open>An instance of the queue: the pending messages, in order.\<close>

definition list_queue :: "(int \<times> int) list message_queue" where
  "list_queue =
     \<lparr>hasMessages = (\<lambda>what q. what \<in> snd ` set q),
      removeMessages = (\<lambda>what q. filter (\<lambda>m. snd m \<noteq> what) q),
      sendEmptyMessageDelayed = (\<lambda>now what delay q.
        takeWhile (\<lambda>m. fst m \<le> now + delay) q @ (now + delay, what)
          # dropWhile (\<lambda>m. fst m \<le> now + delay) q),
      nextMessage = (\<lambda>now q. case q of
          [] \<Rightarrow> None
        | (due, what) # q' \<Rightarrow> if due \<le> now then Some (what, q') else None)\<rparr>"

lemma list_queue_laws: "message_queue_laws list_queue id"
  by (auto simp: message_queue_laws_def list_queue_def split: list.splits if_splits)

definition example_files :: files where
  "example_files = \<lparr>readTextFile = (\<lambda>path n. Some POSITION_UP), stringToFile = (\<lambda>path x. True)\<rparr>"

definition camera_idle :: "(int \<times> int) list camera_system" where
  "camera_idle = \<lparr>file_writes = [], callback_registered = True, mHandler = [], mClosedEvent = 0, mOpenEvent = 0,
     uptime = 5000, elapsed = 9000\<rparr>"

text \<open>
  C25: the motor follows the front camera, if its files can be written.  Whatever cameras are opened and closed, whenever the
  messages are handled and however long the device sleeps in between, nothing more is needed
  than time for all messages to be handled; and whenever none is pending, the motor was last
  started in the direction that fits the last event of the front camera: up if it was opened,
  down if it was closed.
\<close>

theorem motor_follows_camera:
  assumes "message_queue_laws H pending" and "writable fs" and "pending (mHandler s) = []"
    and "camera_run H fs s ls t" and "asked ls \<noteq> []"
  shows "(\<exists>ls' u. camera_run H fs t ls' u \<and> asked ls' = [] \<and> pending (mHandler u) = [])
    \<and> (pending (mHandler t) = [] \<longrightarrow>
        (\<exists>ws. file_writes t = file_writes s @ ws \<and> moves d ws \<noteq> []
            \<and> last (moves d ws) = direction_for (last (asked ls))))"
proof -
  obtain ws where inv: "camera_inv pending t" and wins: "last_event_wins pending ls t"
    and ws: "file_writes t = file_writes s @ ws" "moves d ws = map direction_for (handled ls)"
    using camera_run_facts [OF assms(4,1,3,2)] by blast
  have "moves d ws \<noteq> [] \<and> last (moves d ws) = direction_for (last (asked ls))"
    if "pending (mHandler t) = []"
    using that wins assms(5) by (auto simp: ws(2) last_event_wins_def last_map)
  with messages_drained_later [OF assms(1) inv] ws(1) show ?thesis by blast
qed

text \<open>The camera is opened, and the message is handled 100 ms later.\<close>

definition camera_opened :: "(int \<times> int) list camera_system" where
  "camera_opened = onCameraUnavailable list_queue 9000 9001 5000 FRONT_CAMERA_ID camera_idle"

definition camera_raised :: "(int \<times> int) list camera_system" where
  "camera_raised = snd (handleMessage example_files MSG_CAMERA_OPEN
     (camera_opened\<lparr>uptime := 5100, elapsed := 9100, mHandler := []\<rparr>))"

lemma camera_opened_queue: "mHandler camera_opened = [(5100, MSG_CAMERA_OPEN)]"
  by (simp add: camera_opened_def camera_idle_def onCameraUnavailable_def list_queue_def
      service_constants)

lemma camera_raised_run:
  "camera_run list_queue example_files camera_idle [OPENED, QUIET, HANDLED MSG_CAMERA_OPEN] camera_raised"
proof -
  have idle: "uptime camera_idle = 5000" "elapsed camera_idle = 9000" "callback_registered camera_idle"
    by (simp_all add: camera_idle_def)
  have "camera_step list_queue example_files camera_idle OPENED camera_opened"
    using camera_step.unavailable [of camera_idle 1 list_queue example_files FRONT_CAMERA_ID]
    by (simp add: idle camera_opened_def)
  moreover have "camera_step list_queue example_files camera_opened QUIET
      (camera_opened\<lparr>uptime := 5100, elapsed := 9100\<rparr>)"
    using camera_step.pass [of 100 100 list_queue example_files camera_opened]
    by (simp add: camera_opened_def idle)
  moreover have "camera_step list_queue example_files (camera_opened\<lparr>uptime := 5100, elapsed := 9100\<rparr>)
      (HANDLED MSG_CAMERA_OPEN) camera_raised"
    using camera_step.message [of list_queue "camera_opened\<lparr>uptime := 5100, elapsed := 9100\<rparr>"
        MSG_CAMERA_OPEN "[]" example_files]
    by (simp add: camera_opened_queue list_queue_def camera_raised_def)
  ultimately show ?thesis by (blast intro: run_Cons run.none)
qed

lemma writable_example: "writable example_files"
  by (simp add: writable_def example_files_def move_def)

theorem motor_follows_camera_witness:
  "\<exists>ws. file_writes camera_raised = ws \<and> last (moves DIRECTION_DOWN ws) = DIRECTION_UP"
proof -
  have "id (mHandler camera_raised) = []" "id (mHandler camera_idle) = []" "file_writes camera_idle = []"
    by (simp_all add: camera_raised_def camera_idle_def)
  with motor_follows_camera [OF list_queue_laws writable_example _ camera_raised_run, of DIRECTION_DOWN]
  show ?thesis by (auto simp: direction_for_def)
qed


text \<open>The camera is opened and closed again after 50 ms: it is only lowered.\<close>

definition camera_at :: "(int \<times> int) list \<Rightarrow> int \<Rightarrow> int \<Rightarrow> int \<Rightarrow> int \<Rightarrow> (int \<times> int) list camera_system" where
  "camera_at q closed opened up el = \<lparr>file_writes = [], callback_registered = True, mHandler = q, mClosedEvent = closed,
     mOpenEvent = opened, uptime = up, elapsed = el\<rparr>"

lemma camera_at_events:
  "onCameraUnavailable list_queue 9000 9000 5000 FRONT_CAMERA_ID (camera_at [] 0 0 5000 9000)
     = camera_at [(5100, MSG_CAMERA_OPEN)] 0 9000 5000 9000"
  "onCameraAvailable list_queue 9050 9050 5050 FRONT_CAMERA_ID
     (camera_at [(5100, MSG_CAMERA_OPEN)] 0 9000 5050 9050)
     = camera_at [(5150, MSG_CAMERA_CLOSED)] 9050 9000 5050 9050"
  "onCameraAvailable list_queue 19000 19000 5050 FRONT_CAMERA_ID
     (camera_at [(5100, MSG_CAMERA_OPEN)] 0 9000 5050 19000)
     = camera_at [(5100, MSG_CAMERA_OPEN), (5150, MSG_CAMERA_CLOSED)] 19000 9000 5050 19000"
  by (simp_all add: camera_at_def onCameraUnavailable_def onCameraAvailable_def list_queue_def
      service_constants)

lemma camera_at_next:
  "due \<le> up \<Longrightarrow> nextMessage list_queue (uptime (camera_at ((due, what) # q) c p up e))
     (mHandler (camera_at ((due, what) # q) c p up e)) = Some (what, q)"
  by (simp add: camera_at_def list_queue_def)

lemma camera_at_sel [simp]:
  "mHandler (camera_at q c p up e) = q" "uptime (camera_at q c p up e) = up"
  "elapsed (camera_at q c p up e) = e" "callback_registered (camera_at q c p up e)"
  "(camera_at q c p up e)\<lparr>uptime := u, elapsed := v\<rparr> = camera_at q c p u v"
  by (simp_all add: camera_at_def)

lemma prompt_reversal:
  "run (prompt_step list_queue id example_files) (camera_at [] 0 0 5000 9000)
     [OPENED, QUIET, CLOSED, QUIET] (camera_at [(5150, MSG_CAMERA_CLOSED)] 9050 9000 5150 9150)"
proof -
  let ?step = "prompt_step list_queue id example_files"
  have "?step (camera_at [] 0 0 5000 9000) OPENED (camera_at [(5100, MSG_CAMERA_OPEN)] 0 9000 5000 9000)"
    using prompt_step.unavailable [of "camera_at [] 0 0 5000 9000" id list_queue example_files FRONT_CAMERA_ID]
    by (simp add: camera_at_events)
  moreover have "?step (camera_at [(5100, MSG_CAMERA_OPEN)] 0 9000 5000 9000) QUIET
      (camera_at [(5100, MSG_CAMERA_OPEN)] 0 9000 5050 9050)"
    using prompt_step.pass [of 50 id "camera_at [(5100, MSG_CAMERA_OPEN)] 0 9000 5000 9000" list_queue example_files]
    by simp
  moreover have "?step (camera_at [(5100, MSG_CAMERA_OPEN)] 0 9000 5050 9050) CLOSED
      (camera_at [(5150, MSG_CAMERA_CLOSED)] 9050 9000 5050 9050)"
    using prompt_step.available [of "camera_at [(5100, MSG_CAMERA_OPEN)] 0 9000 5050 9050" id list_queue
        example_files FRONT_CAMERA_ID]
    by (simp add: camera_at_events)
  moreover have "?step (camera_at [(5150, MSG_CAMERA_CLOSED)] 9050 9000 5050 9050) QUIET
      (camera_at [(5150, MSG_CAMERA_CLOSED)] 9050 9000 5150 9150)"
    using prompt_step.pass [of 100 id "camera_at [(5150, MSG_CAMERA_CLOSED)] 9050 9000 5050 9050" list_queue example_files]
    by simp
  ultimately show ?thesis by (blast intro: run_Cons run.none)
qed


text \<open>
  It is not so on a device that sleeps: the time of an event is read from a clock that counts
  the sleep, and the delay of a message from one that does not.  If the device sleeps between
  the opening and the closing, the message of the opening is not withdrawn although it is
  still pending, and the camera is raised after it was closed.
\<close>

lemma sleep_raises_closed_camera:
  "\<exists>t. camera_run list_queue example_files (camera_at [] 0 0 5000 9000)
         [OPENED, QUIET, CLOSED, QUIET, HANDLED MSG_CAMERA_OPEN] t
     \<and> moves DIRECTION_DOWN (file_writes t) = [DIRECTION_UP]"
proof -
  let ?step = "camera_step list_queue example_files"
  let ?q = "[(5100, MSG_CAMERA_OPEN), (5150, MSG_CAMERA_CLOSED)]"
  let ?t = "snd (handleMessage example_files MSG_CAMERA_OPEN
      ((camera_at ?q 19000 9000 5100 19050)\<lparr>mHandler := [(5150, MSG_CAMERA_CLOSED)]\<rparr>))"
  have "?step (camera_at [] 0 0 5000 9000) OPENED (camera_at [(5100, MSG_CAMERA_OPEN)] 0 9000 5000 9000)"
    using camera_step.unavailable [of "camera_at [] 0 0 5000 9000" 0 list_queue example_files FRONT_CAMERA_ID]
    by (simp add: camera_at_events)
  moreover have "?step (camera_at [(5100, MSG_CAMERA_OPEN)] 0 9000 5000 9000) QUIET
      (camera_at [(5100, MSG_CAMERA_OPEN)] 0 9000 5050 19000)"
    using camera_step.pass [of 50 10000 list_queue example_files "camera_at [(5100, MSG_CAMERA_OPEN)] 0 9000 5000 9000"]
    by simp
  moreover have "?step (camera_at [(5100, MSG_CAMERA_OPEN)] 0 9000 5050 19000) CLOSED
      (camera_at ?q 19000 9000 5050 19000)"
    using camera_step.available [of "camera_at [(5100, MSG_CAMERA_OPEN)] 0 9000 5050 19000" 0 list_queue
        example_files FRONT_CAMERA_ID]
    by (simp add: camera_at_events)
  moreover have "?step (camera_at ?q 19000 9000 5050 19000) QUIET (camera_at ?q 19000 9000 5100 19050)"
    using camera_step.pass [of 50 50 list_queue example_files "camera_at ?q 19000 9000 5050 19000"]
    by simp
  moreover have "?step (camera_at ?q 19000 9000 5100 19050) (HANDLED MSG_CAMERA_OPEN) ?t"
    by (rule camera_step.message, rule camera_at_next) simp
  ultimately have "camera_run list_queue example_files (camera_at [] 0 0 5000 9000)
      [OPENED, QUIET, CLOSED, QUIET, HANDLED MSG_CAMERA_OPEN] ?t"
    by (blast intro: run_Cons run.none)
  moreover have "file_writes ?t = move DIRECTION_UP"
    by (subst handle_writes [OF writable_example]) (simp_all add: camera_at_def direction_for_def)
  moreover have "moves DIRECTION_DOWN (move DIRECTION_UP) = [DIRECTION_UP]"
    using moves_move [of DIRECTION_DOWN "[]"] by simp
  ultimately show ?thesis by metis
qed

end
