(* ===== verification/Camera_Alerts.thy ===== *)
theory Camera_Alerts
  imports Camera_Motor Float_Laws
begin

text \<open>
  The rest of the camera helper: \<open>FallSensor.java\<close> lowers the camera when the device falls,
  \<open>KeyHandler.java\<close> turns the motor's key events into warnings, and both let the user move the
  camera from a dialog; \<open>FallSensorService.java\<close> and \<open>BootCompletedReceiver.java\<close> start them.

  Dialogs are posted to the main thread and shown there; what they show is not looked at,
  only which they are and what their buttons do.
\<close>

subsection \<open>Dialogs\<close>

datatype alert = FREE_FALL_DETECTED | CANNOT_GO_DOWN | CANNOT_GO_UP | MOTOR_PRESS

datatype button = POSITIVE | NEGATIVE

text \<open>
  What is run on the main thread: the dialogs of \<open>KeyHandler\<close> need the package's context, which
  may not be found.
\<close>

definition shown_alert :: "bool \<Rightarrow> alert \<Rightarrow> alert list" where
  "shown_alert packageContext a =
     (if a = FREE_FALL_DETECTED \<or> packageContext then [a] else [])"

text \<open>
  The buttons of the dialog of \<open>FallSensor\<close> and of those of \<open>KeyHandler\<close>: whether the home screen
  is started, and the new state.  A button that a dialog does not have does nothing.
\<close>

fun free_fall_onClick :: "files \<Rightarrow> button \<Rightarrow> 'a motor_files_scheme \<Rightarrow> bool \<times> 'a motor_files_scheme" where
  "free_fall_onClick fs NEGATIVE s =
     (False, setMotorEnabled fs (setMotorDirection fs DIRECTION_UP s))"
| "free_fall_onClick fs POSITIVE s = (True, s)"

fun motor_onClick :: "files \<Rightarrow> alert \<Rightarrow> button \<Rightarrow> 'a motor_files_scheme \<Rightarrow> bool \<times> 'a motor_files_scheme" where
  "motor_onClick fs CANNOT_GO_DOWN POSITIVE s =
     (False, setMotorEnabled fs (setMotorDirection fs DIRECTION_DOWN s))"
| "motor_onClick fs CANNOT_GO_UP NEGATIVE s =
     (False, setMotorEnabled fs (setMotorDirection fs DIRECTION_UP s))"
| "motor_onClick fs CANNOT_GO_UP POSITIVE s =
     (True, setMotorEnabled fs (setMotorDirection fs DIRECTION_DOWN s))"
| "motor_onClick fs _ _ s = (False, s)"

definition onClick :: "files \<Rightarrow> alert \<Rightarrow> button \<Rightarrow> 'a motor_files_scheme \<Rightarrow> bool \<times> 'a motor_files_scheme" where
  "onClick fs a b s =
     (if a = FREE_FALL_DETECTED then free_fall_onClick fs b s else motor_onClick fs a b s)"

subsection \<open>Falls\<close>

text \<open>
  The dialogs that are posted, and the new state; \<open>None\<close> is a \<open>NullPointerException\<close>, which
  ends the application: the position of the motor is compared without asking whether it
  could be read.
\<close>

definition onSensorChanged :: "files \<Rightarrow> fl \<Rightarrow> 'a motor_files_scheme
    \<Rightarrow> (alert list \<times> 'a motor_files_scheme) option" where
  "onSensorChanged fs value0 s =
     (if fle value0 (Fin 0) then Some ([], s)
      else case getMotorPosition fs of
             None \<Rightarrow> None
           | Some position \<Rightarrow>
               if position = POSITION_DOWN then Some ([], s)
               else Some ([FREE_FALL_DETECTED], setMotorEnabled fs (setMotorDirection fs DIRECTION_DOWN s)))"

text \<open>
  The sensor is the first with the right type string.  Registering and unregistering are
  tasks of an executor with one thread; the tasks are kept in the order of their submission.
\<close>

record sensor =
  getStringType :: "string option"
  sensor_id :: nat

datatype task = REGISTER_LISTENER "sensor option" | UNREGISTER_LISTENER "sensor option"

record fall_sensor =
  mSensor :: "sensor option"
  submitted :: "task list"

definition FallSensor :: "sensor list \<Rightarrow> fall_sensor" where
  "FallSensor getSensorList =
     \<lparr>mSensor = find (\<lambda>sensor. getStringType sensor = Some ''camera_protect'') getSensorList,
      submitted = []\<rparr>"

definition fall_enable :: "fall_sensor \<Rightarrow> fall_sensor" where
  "fall_enable f = f\<lparr>submitted := submitted f @ [REGISTER_LISTENER (mSensor f)]\<rparr>"

definition fall_disable :: "fall_sensor \<Rightarrow> fall_sensor" where
  "fall_disable f = f\<lparr>submitted := submitted f @ [UNREGISTER_LISTENER (mSensor f)]\<rparr>"

text \<open>
  \<open>FallSensorService\<close>: its creation, and what the system calls it for later; the screen's
  changes come through the receiver.
\<close>

record fall_service =
  mFallSensor :: fall_sensor
  receiver_registered :: bool

definition fall_onCreate :: "sensor list \<Rightarrow> fall_service" where
  "fall_onCreate getSensorList =
     \<lparr>mFallSensor = FallSensor getSensorList, receiver_registered = True\<rparr>"

datatype service_call = SCREEN_ON | SCREEN_OFF | OTHER_ACTION | START_COMMAND | DESTROY

fun fall_service_call :: "service_call \<Rightarrow> fall_service \<Rightarrow> fall_service" where
  "fall_service_call SCREEN_ON f = f\<lparr>mFallSensor := fall_enable (mFallSensor f)\<rparr>"
| "fall_service_call SCREEN_OFF f = f\<lparr>mFallSensor := fall_disable (mFallSensor f)\<rparr>"
| "fall_service_call OTHER_ACTION f = f"
| "fall_service_call START_COMMAND f = f\<lparr>mFallSensor := fall_enable (mFallSensor f)\<rparr>"
| "fall_service_call DESTROY f =
     f\<lparr>mFallSensor := fall_disable (mFallSensor f), receiver_registered := False\<rparr>"

text \<open>The last call decides: the task that was submitted last is the one for the last change.\<close>

lemma last_fall_task:
  assumes "f = fold fall_service_call (cs @ [c]) (fall_onCreate sensors)" and "c \<noteq> OTHER_ACTION"
  shows "last (submitted (mFallSensor f)) = (if c = START_COMMAND \<or> c = SCREEN_ON
     then REGISTER_LISTENER (mSensor (FallSensor sensors)) else UNREGISTER_LISTENER (mSensor (FallSensor sensors)))"
proof -
  have frame: "mSensor (mFallSensor (fall_service_call c' g)) = mSensor (mFallSensor g)" for c' g
    by (cases c') (simp_all add: fall_enable_def fall_disable_def)
  have "mSensor (mFallSensor (fold fall_service_call cs g)) = mSensor (mFallSensor g)" for g
    by (induction cs arbitrary: g) (simp_all add: frame)
  then show ?thesis
    using assms by (cases c) (simp_all add: fall_enable_def fall_disable_def fall_onCreate_def)
qed

subsection \<open>Keys of the motor\<close>

text \<open>A key event: its scan code, and whether its action is \<open>ACTION_DOWN\<close>.\<close>

record key_event =
  getScanCode :: int
  action_down :: bool

definition MOTOR_EVENT_MANUAL_TO_DOWN :: int where "MOTOR_EVENT_MANUAL_TO_DOWN = 184"

definition MOTOR_EVENT_UP_ABNORMAL :: int where "MOTOR_EVENT_UP_ABNORMAL = 186"

definition MOTOR_EVENT_DOWN_ABNORMAL :: int where "MOTOR_EVENT_DOWN_ABNORMAL = 189"

lemmas motor_keys = MOTOR_EVENT_MANUAL_TO_DOWN_def MOTOR_EVENT_UP_ABNORMAL_def
  MOTOR_EVENT_DOWN_ABNORMAL_def

text \<open>
  Each warning: whether the home screen is started at once, and the dialog that is posted.
\<close>

definition showCameraMotorPressWarning :: "bool \<times> alert list" where
  "showCameraMotorPressWarning = (True, [MOTOR_PRESS])"

definition showCameraMotorCannotGoUpWarning :: "bool \<times> alert list" where
  "showCameraMotorCannotGoUpWarning = (False, [CANNOT_GO_UP])"

definition showCameraMotorCannotGoDownWarning :: "bool \<times> alert list" where
  "showCameraMotorCannotGoDownWarning = (False, [CANNOT_GO_DOWN])"

text \<open>The event that is passed on (\<open>None\<close> is \<open>null\<close>), and what the warning does.\<close>

definition handleKeyEvent :: "key_event \<Rightarrow> key_event option \<times> bool \<times> alert list" where
  "handleKeyEvent event =
     (let scanCode = getScanCode event
      in if scanCode = MOTOR_EVENT_MANUAL_TO_DOWN then
           (None, if action_down event then showCameraMotorPressWarning else (False, []))
         else if scanCode = MOTOR_EVENT_UP_ABNORMAL then
           (None, if action_down event then showCameraMotorCannotGoUpWarning else (False, []))
         else if scanCode = MOTOR_EVENT_DOWN_ABNORMAL then
           (None, if action_down event then showCameraMotorCannotGoDownWarning else (False, []))
         else (Some event, False, []))"

text \<open>A press gives one warning, its release none, and all other keys are passed on.\<close>

lemma key_pressed_and_released:
  assumes "k \<in> {MOTOR_EVENT_MANUAL_TO_DOWN, MOTOR_EVENT_UP_ABNORMAL, MOTOR_EVENT_DOWN_ABNORMAL}"
  shows "length (snd (snd (handleKeyEvent \<lparr>getScanCode = k, action_down = True\<rparr>))) = 1"
    and "handleKeyEvent \<lparr>getScanCode = k, action_down = False\<rparr> = (None, False, [])"
  using assms
  by (auto simp: handleKeyEvent_def motor_keys showCameraMotorPressWarning_def
      showCameraMotorCannotGoUpWarning_def showCameraMotorCannotGoDownWarning_def)

text \<open>\<open>BootCompletedReceiver\<close> starts the two services, in this order.\<close>

datatype app_service = CameraMotorService | FallSensorService

definition onBootCompleted :: "app_service list" where
  "onBootCompleted = [CameraMotorService, FallSensorService]"

subsection \<open>The whole helper\<close>

text \<open>
  Camera events, messages, falls and clicks, in any order.  What can be read from the files
  may be different each time.
\<close>

datatype helper_label = CAMERA camera_label | FALL "alert list" | CLICK alert button

inductive helper_step :: "'q message_queue \<Rightarrow> files
    \<Rightarrow> 'q camera_system \<Rightarrow> helper_label \<Rightarrow> 'q camera_system \<Rightarrow> bool" for H fs where
  camera: "camera_step H fs s l t \<Longrightarrow> helper_step H fs s (CAMERA l) t"
| fall: "onSensorChanged (fs\<lparr>readTextFile := rd\<rparr>) v s = Some (as, t) \<Longrightarrow>
     helper_step H fs s (FALL as) t"
| click: "helper_step H fs s (CLICK a b) (snd (onClick fs a b s))"

abbreviation helper_run :: "'q message_queue \<Rightarrow> files
    \<Rightarrow> 'q camera_system \<Rightarrow> helper_label list \<Rightarrow> 'q camera_system \<Rightarrow> bool" where
  "helper_run H fs \<equiv> run (helper_step H fs)"

text \<open>The labels of what may raise the camera: an opening, and the buttons that say so.\<close>

definition raising :: "helper_label set" where
  "raising = {CAMERA OPENED, CLICK FREE_FALL_DETECTED NEGATIVE, CLICK CANNOT_GO_UP NEGATIVE}"

text \<open>What falls and clicks leave alone.\<close>

lemma setMotor_frame [simp]:
  fixes s :: "'q camera_system"
  shows "mHandler (setMotorEnabled fs s) = mHandler s" "uptime (setMotorEnabled fs s) = uptime s"
    and "mHandler (setMotorDirection fs x s) = mHandler s" "uptime (setMotorDirection fs x s) = uptime s"
  by (simp_all add: setMotorEnabled_def setMotorDirection_def write_file_def)

lemma click_frame [simp]:
  fixes s :: "'q camera_system"
  shows "mHandler (snd (onClick fs a b s)) = mHandler s" "uptime (snd (onClick fs a b s)) = uptime s"
  by (cases a; cases b; simp add: onClick_def)+

lemma click_writes:
  assumes "writable fs" and "CLICK a b \<notin> raising"
  shows "\<exists>ws\<in>{[], move DIRECTION_DOWN}. file_writes (snd (onClick fs a b s)) = file_writes s @ ws"
  using assms by (cases a; cases b) (simp_all add: onClick_def raising_def move_written)

lemma writable_reading: "writable (fs\<lparr>readTextFile := rd\<rparr>) = writable fs"
  by (simp add: writable_def)

lemma fall_cases:
  fixes s :: "'a motor_files_scheme"
  assumes "onSensorChanged fs v s = Some (as, t)" and "writable fs"
  obtains "as = []" "t = s"
  | "as = [FREE_FALL_DETECTED]" "t = setMotorEnabled fs (setMotorDirection fs DIRECTION_DOWN s)"
      "file_writes t = file_writes s @ move DIRECTION_DOWN"
  using assms
  by (auto simp: onSensorChanged_def move_written split: if_splits option.splits)

definition no_opening :: "('q \<Rightarrow> (int \<times> int) list) \<Rightarrow> 'q camera_system \<Rightarrow> bool" where
  "no_opening pending s \<longleftrightarrow> MSG_CAMERA_OPEN \<notin> snd ` set (pending (mHandler s))"

lemma helper_step_lowers:
  assumes "helper_step H fs s l t" and "l \<notin> raising" and "message_queue_laws H pending"
    and "writable fs" and "camera_inv pending s" and "no_opening pending s"
  shows "camera_inv pending t \<and> no_opening pending t
    \<and> (\<exists>ws\<in>{[], move DIRECTION_DOWN}. file_writes t = file_writes s @ ws)"
  using assms(1)
proof (cases rule: helper_step.cases)
  case (camera k)
  have "camera_inv pending t" by (rule camera_inv_step [OF camera(2) assms(3,5)])
  moreover have "no_opening pending t \<and> (\<exists>ws\<in>{[], move DIRECTION_DOWN}. file_writes t = file_writes s @ ws)"
    using camera(2) assms(3,5)
  proof (cases rule: camera_step_cases)
    case (event what keep)
    then have "what = MSG_CAMERA_CLOSED"
      using assms(2) camera(1) by (cases k) (auto simp: raising_def)
    with event assms(6) show ?thesis
      by (auto simp: no_opening_def MSG_CAMERA_CLOSED_def MSG_CAMERA_OPEN_def)
  next
    case (message due what)
    then have "what = MSG_CAMERA_CLOSED"
      using assms(5,6) by (auto simp: camera_inv_def no_opening_def)
    then have "file_writes t = file_writes s @ move DIRECTION_DOWN"
      using message(6) assms(4)
      by (simp add: handle_writes direction_for_def MSG_CAMERA_CLOSED_def MSG_CAMERA_OPEN_def)
    moreover have "no_opening pending t" using message(4) assms(6) by (simp add: no_opening_def)
    ultimately show ?thesis by blast
  next
    case quiet
    then show ?thesis using assms(6) by (simp add: no_opening_def)
  qed
  ultimately show ?thesis by blast
next
  case (fall rd v as)
  then have "writable (fs\<lparr>readTextFile := rd\<rparr>)" using assms(4) by (simp add: writable_reading)
  from fall(2) this show ?thesis
    using assms(5,6) by (cases rule: fall_cases) (auto simp: camera_inv_def no_opening_def)
next
  case (click a b)
  then show ?thesis
    using click_writes [OF assms(4), of a b s] assms(2,5,6) by (simp add: camera_inv_def no_opening_def)
qed

lemma moves_append_down:
  assumes "set (moves d vs) \<subseteq> {DIRECTION_DOWN}" and "ws \<in> {[], move DIRECTION_DOWN}"
  shows "set (moves d (vs @ ws)) \<subseteq> {DIRECTION_DOWN}"
  using assms by (auto simp: moves_move)

lemma helper_run_lowers:
  assumes "helper_run H fs s ls t" and "set ls \<inter> raising = {}" and "message_queue_laws H pending"
    and "writable fs" and "camera_inv pending s" and "no_opening pending s"
  shows "camera_inv pending t \<and> no_opening pending t
    \<and> (\<exists>ws. file_writes t = file_writes s @ ws \<and> (\<forall>d. set (moves d ws) \<subseteq> {DIRECTION_DOWN}))"
  using assms
proof (induction rule: run.induct)
  case (some s ls t l u)
  then obtain ws where inv: "camera_inv pending t" "no_opening pending t"
    and ws: "file_writes t = file_writes s @ ws" "\<And>d. set (moves d ws) \<subseteq> {DIRECTION_DOWN}"
    by auto
  have "l \<notin> raising" using some.prems(1) by auto
  from helper_step_lowers [OF some.hyps(2) this some.prems(2,3) inv]
  obtain ws' where u: "camera_inv pending u" "no_opening pending u"
    and ws': "ws' \<in> {[], move DIRECTION_DOWN}" "file_writes u = file_writes t @ ws'" by blast
  have "\<forall>d. set (moves d (ws @ ws')) \<subseteq> {DIRECTION_DOWN}"
    using moves_append_down [OF ws(2) ws'(1)] by blast
  then show ?case
    using u ws(1) ws'(2) by (intro conjI exI [of _ "ws @ ws'"]) simp_all
qed (auto intro: exI [of _ "[]"])

subsection \<open>Properties\<close>

text \<open>
  C27: after a fall the camera stays down, if the motor's files can be written.  If a fall was detected while no opening was pending,
  and the motor was not in its lower position, then the motor is started downwards, a dialog
  is posted, and from then on, whatever else happens, it is only ever started downwards until
  the front camera is opened anew or the user chooses to raise it.
\<close>

theorem fall_keeps_camera_down:
  assumes "message_queue_laws H pending" and "writable fs" and "camera_inv pending s0"
    and "no_opening pending s0"
    and "onSensorChanged fs v s0 = Some (as, s)" and "\<not> fle v (Fin 0)"
    and "getMotorPosition fs = Some p" and "p \<noteq> POSITION_DOWN"
    and "helper_run H fs s ls t" and "set ls \<inter> raising = {}"
  shows "as = [FREE_FALL_DETECTED]
    \<and> (\<exists>ws. file_writes t = file_writes s0 @ move DIRECTION_DOWN @ ws
          \<and> set (moves d (move DIRECTION_DOWN @ ws)) = {DIRECTION_DOWN})"
proof -
  have as: "as = [FREE_FALL_DETECTED]"
    and s: "s = setMotorEnabled fs (setMotorDirection fs DIRECTION_DOWN s0)"
    using assms(5-8) by (simp_all add: onSensorChanged_def)
  have "camera_inv pending s" "no_opening pending s"
    using assms(3,4) by (simp_all add: s camera_inv_def no_opening_def)
  from helper_run_lowers [OF assms(9,10,1,2) this]
  obtain ws where ws: "file_writes t = file_writes s @ ws" "\<And>d. set (moves d ws) \<subseteq> {DIRECTION_DOWN}"
    by blast
  have "file_writes s = file_writes s0 @ move DIRECTION_DOWN"
    using assms(2) by (simp add: s move_written)
  moreover have "moves d (move DIRECTION_DOWN @ ws) = DIRECTION_DOWN # moves DIRECTION_DOWN ws" for d
    by (simp add: move_def motor_paths)
  ultimately show ?thesis
    using as ws(1) ws(2) [of DIRECTION_DOWN] by (intro conjI exI [of _ ws]) auto
qed

theorem fall_keeps_camera_down_witness:
  "\<exists>ws. file_writes (setMotorEnabled example_files (setMotorDirection example_files DIRECTION_DOWN
        (camera_at [] 0 0 5000 9000)))
      = file_writes (camera_at [] 0 0 5000 9000) @ move DIRECTION_DOWN @ ws
    \<and> set (moves DIRECTION_UP (move DIRECTION_DOWN @ ws)) = {DIRECTION_DOWN}"
proof -
  let ?s = "setMotorEnabled example_files (setMotorDirection example_files DIRECTION_DOWN
      (camera_at [] 0 0 5000 9000))"
  have run: "helper_run list_queue example_files ?s [] ?s" by (rule run.none)
  have up: "getMotorPosition example_files = Some POSITION_UP" "POSITION_UP \<noteq> POSITION_DOWN"
    by (simp_all add: getMotorPosition_def example_files_def POSITION_UP_def POSITION_DOWN_def)
  have fall: "onSensorChanged example_files (Fin 1) (camera_at [] 0 0 5000 9000)
      = Some ([FREE_FALL_DETECTED], ?s)"
    using up by (simp add: onSensorChanged_def)
  have "camera_inv id (camera_at [] 0 0 5000 9000)" "no_opening id (camera_at [] 0 0 5000 9000)"
    "\<not> fle (Fin 1) (Fin 0)" "set [] \<inter> raising = {}"
    by (simp_all add: camera_inv_def no_opening_def)
  from fall_keeps_camera_down [OF list_queue_laws writable_example this(1,2) fall this(3) up run this(4)]
  show ?thesis by blast
qed

text \<open>
  But a fall within 100 ms after the opening does not stop the camera: its message is pending,
  the motor is still in its lower position or lowered in vain, and then the message raises it.
\<close>

lemma opening_overrides_fall:
  fixes s :: "'q camera_system"
  assumes "message_queue_laws H pending" and "writable fs"
    and "pending (mHandler s) = [(due, MSG_CAMERA_OPEN)]"
    and "onSensorChanged fs v s = Some (as, t)" and "due \<le> up"
  shows "\<exists>q. nextMessage H up (mHandler t) = Some (MSG_CAMERA_OPEN, q)
    \<and> file_writes (snd (handleMessage fs MSG_CAMERA_OPEN t)) = file_writes t @ move DIRECTION_UP"
proof -
  have "mHandler t = mHandler s"
    using assms(4,2) by (cases rule: fall_cases) simp_all
  then have p: "pending (mHandler t) = [(due, MSG_CAMERA_OPEN)]" using assms(3) by simp
  then obtain what q where n: "nextMessage H up (mHandler t) = Some (what, q)"
    using message_queue_rules(4) [OF assms(1) p assms(5)] by auto
  then have "what = MSG_CAMERA_OPEN"
    using message_queue_rules(3) [OF assms(1) n] p by auto
  then show ?thesis
    using n by (simp add: handle_writes [OF assms(2)] direction_for_def)
qed

text \<open>
  Two ways to fail: without a readable position a fall ends the application, and without a
  writable direction the motor is started in the direction of the last time.
\<close>

lemma fall_without_position:
  "onSensorChanged fs v s = None \<longleftrightarrow> \<not> fle v (Fin 0) \<and> getMotorPosition fs = None"
  by (auto simp: onSensorChanged_def split: option.splits)

lemma moves_in_old_direction:
  assumes "\<not> stringToFile fs CAMERA_MOTOR_DIRECTION_PATH x"
    and "stringToFile fs CAMERA_MOTOR_ENABLE_PATH ENABLED"
    and "file_writes s = ws @ move old"
  shows "moves d (file_writes (setMotorEnabled fs (setMotorDirection fs x s)))
       = moves d ws @ [old, old]"
proof -
  have "moves d (ws @ move old @ [(CAMERA_MOTOR_ENABLE_PATH, ENABLED)]) = moves d ws @ [old, old]"
    by (induction d ws rule: moves.induct) (simp_all add: move_def motor_paths)
  then show ?thesis
    using assms by (simp add: setMotorEnabled_def setMotorDirection_def write_file_def)
qed

end
