(* ===== verification/Touch_Gestures.thy ===== *)
theory Touch_Gestures
  imports Prelude
begin

text \<open>
  \<open>TouchscreenGestureConfig.h\<close>: the gestures the touch HAL offers, as a bit field.  The
  numbers of the gestures and \<open>makeBitField\<close> are declared in a header of the common touch
  HAL outside the repository, and are arguments.
\<close>

record gesture_numbers =
  kGestureUpVee :: nat
  kGestureLeftVee :: nat
  kGestureRightVee :: nat
  kGestureCircle :: nat
  kGestureLeftToRight :: nat
  kGestureRightToLeft :: nat
  kGestureUpToDown :: nat
  kGestureDownToUp :: nat
  kGestureM :: nat
  kGestureW :: nat
  kGestureSingleTap :: nat
  kGestureS :: nat

definition kSupportedGestures :: "(nat list \<Rightarrow> i32) \<Rightarrow> gesture_numbers \<Rightarrow> i32" where
  "kSupportedGestures makeBitField g =
     makeBitField [kGestureUpVee g, kGestureLeftVee g, kGestureRightVee g, kGestureCircle g,
       kGestureLeftToRight g, kGestureRightToLeft g, kGestureUpToDown g, kGestureDownToUp g,
       kGestureM g, kGestureW g, kGestureSingleTap g, kGestureS g]"

text \<open>
  With a \<open>makeBitField\<close> that sets the bits of its arguments, and numbers from 0 on in this
  order, the offered gestures are the lowest twelve bits.
\<close>

lemma supported_gestures_mask:
  assumes "\<And>gs n. bit (makeBitField gs) n \<longleftrightarrow> n \<in> set gs \<and> n < 32"
    and "[kGestureUpVee g, kGestureLeftVee g, kGestureRightVee g, kGestureCircle g,
       kGestureLeftToRight g, kGestureRightToLeft g, kGestureUpToDown g, kGestureDownToUp g,
       kGestureM g, kGestureW g, kGestureSingleTap g, kGestureS g] = [0 ..< 12]"
  shows "kSupportedGestures makeBitField g = mask 12"
proof (rule bit_word_eqI)
  fix n :: nat
  show "bit (kSupportedGestures makeBitField g) n = bit (mask 12 :: i32) n"
    unfolding kSupportedGestures_def assms(2) by (auto simp: assms(1) bit_simps)
qed

end
