(* ===== verification/Spec2Isabelle.thy ===== *)
theory Spec2Isabelle
  imports Event_Origin Wakelock_Ledger Framework_View Wakeup_Events Sub_Hal_Loading Light_Order Hal_Proxy_Callback Hal_Wellformed
    Stop_Protocol Services Camera_Alerts Touch_Gestures
begin

text \<open>
  \<^bold>\<open>The program\<close>

  The device tree of the OnePlus 7 family holds, beside configuration, programs in C++ and one
  in Java.  The sensors HAL (\<open>sensors/\<close>) is a proxy: it loads sub-HALs from shared libraries, shows the
  framework one list of all their sensors, passes the framework's calls on to the sub-HAL
  that owns the sensor, and hands the sub-HALs' events to the framework through a queue in
  shared memory.  On the way it corrects the readings of the light sensor, which sits under
  the display.  The area capture service (\<open>als/default/\<close>) tells the correction what the
  display shows above the sensor.  A header of the touch HAL lists the supported gestures.  The
  camera helper (\<open>camera_helper/\<close>, in Java) raises and lowers the pop-up front camera when it
  is opened and closed, and lowers it when the device falls.

  \<^bold>\<open>The theories\<close>, in the order in which they build on each other

  \<^item> \<open>Prelude\<close>: machine integers, collections of simplification rules, lemmas on words.
  \<^item> \<open>Cpp_Float\<close>: the arithmetic of \<open>float\<close> and \<open>double\<close>, executable; \<open>Float_Laws\<close>: rounding is
    monotone and keeps the values of its format, the values are a linear order, and the
    results of the operations are values of their type.
  \<^item> \<open>Sensor_Types\<close>: the data of the interface, the constants of headers outside the
    repository, and the log of the calls to the outside.
  \<^item> \<open>Sensor_Handle\<close>: packing the index of a sub-HAL into a sensor handle
    (\<open>setSubHalIndex\<close>, \<open>extractSubHalIndex\<close>, \<open>clearSubHalIndex\<close>, \<open>subHalIndexIsClear\<close>), as an
    instance of the interface \<open>handle_codec\<close>.
  \<^item> \<open>Sensor_Map\<close>: \<open>std::map\<close> with \<open>int32_t\<close> keys, as an instance of the interface \<open>i32_map\<close>.
  \<^item> \<open>Wakelock\<close>: the shared wake lock of \<open>HalProxy\<close>: the reference count, its time limit and
    the turns of \<open>handleWakelocks\<close>; an instance of the interface \<open>ref_counter\<close>.
  \<^item> \<open>Event_Delivery\<close>: \<open>postEventsToMessageQueue\<close>, \<open>countNumWakeupEvents\<close> and the turns of
    \<open>handlePendingWrites\<close>.
  \<^item> \<open>Hal_Proxy\<close>: the object itself: loading the sub-HALs, collecting the sensors, and every
    call of the framework and of the sub-HALs; \<open>Sensor_Registry\<close>, \<open>Proxy_Calls\<close>,
    \<open>Dynamic_Sensors\<close> and \<open>Sub_Hal_Loading\<close> prove what these operations do, and
    \<open>Sensor_List_Spec\<close> describes the list of sensors without the loops that collect it.
  \<^item> \<open>Debug_Dump\<close>: \<open>HalProxy::debug\<close>, the text it writes.
  \<^item> \<open>Als_Correction\<close>: \<open>AlsCorrection.cpp\<close>; \<open>Light_Correction\<close> shows that it is a
    \<open>light_correction\<close>, the interface that posting relies on, and \<open>Light_Sensor\<close> and
    \<open>Light_Properties\<close> hold its own properties; \<open>Light_Order\<close>: at a forced update more light is
    not reported as less.
  \<^item> \<open>Hal_Proxy_Callback\<close>: \<open>HalProxyCallback.cpp\<close>, a client of the interface
    \<open>sub_hal_callback\<close>, of which the proxy is an instance.
  \<^item> \<open>Hal_Lifecycle\<close>: \<open>stopThreads\<close>, \<open>initializeCommon\<close> and their callers.
  \<^item> \<open>Fifo_Spec\<close>: what the proxy promises about events, an abstract line in which they wait,
    with the interface \<open>simulation\<close> between labelled transition systems.
  \<^item> \<open>Hal_Interleaving\<close>: the running proxy as a transition system in which posting, the two
    threads, the framework's calls and initialisations are interleaved; it is a simulation of
    the abstract line.  \<open>Hal_Wellformed\<close>: its indices, maps and pointers in every state.
    \<open>Framework_View\<close>: the list of sensors stays what the constructor made of it and its sensors
    stay reachable, and the dynamic sensors are those that were announced.
  \<^item> \<open>Event_Origin\<close>: the callbacks and the running proxy together: what the framework gets
    under the index of a sub-HAL is what this sub-HAL posted.  \<open>Wakeup_Events\<close>: the number of
    wake-up events a callback finds is the one the sub-HAL's own descriptions give.
    \<open>Wakelock_Ledger\<close>: the running proxy beside a ledger of the wake-up events that are owed and
    the scoped wake locks that are alive, with which the reference count agrees.
  \<^item> \<open>Stop_Protocol\<close>: the waiting loops of the threads against \<open>stopThreads\<close>, at the grain of
    atomic actions.
  \<^item> \<open>Area_Capture\<close>: \<open>AreaCapture.cpp\<close>; \<open>Services\<close>: the \<open>main\<close> functions of the two services.
  \<^item> \<open>Camera_Motor\<close>: \<open>CameraMotorController.java\<close> and \<open>CameraMotorService.java\<close>, as a transition
    system with two clocks; \<open>Camera_Alerts\<close>: \<open>FallSensor.java\<close>, \<open>FallSensorService.java\<close>,
    \<open>KeyHandler.java\<close> and \<open>BootCompletedReceiver.java\<close>, and all of the helper together.
  \<^item> \<open>Touch_Gestures\<close>: \<open>TouchscreenGestureConfig.h\<close>.

  \<^bold>\<open>How the state corresponds\<close>

  The members of \<open>HalProxy\<close> are the fields, of the same names, of three records that extend
  each other: \<open>wakelock_state\<close>, \<open>delivery_state\<close> and \<open>hal_proxy\<close>.  An operation takes the state
  and gives the new one; a \<open>bool\<close>, a result code or a null pointer that the code returns is a
  value.  What is sent to the outside (the kernel's wake lock, the queues and their flags,
  the condition variables, the dynamic sensors callback) is appended to the field \<open>calls\<close>.
  What comes from the outside is an argument: the clock, the room in the event queue and
  whether a write succeeds, properties and files, pictures.  A sub-HAL is an object with an
  unknown state and unknown methods, collected in a record of functions; the dynamic linker
  is another.  \<open>int32_t\<close>, \<open>uint32_t\<close> and \<open>size_t\<close> are words of their width; times in
  nanoseconds, which stay far below \<open>2^63\<close>, are integers.

  A function that runs under a mutex is one step.  Where a thread gives a mutex up (while it
  writes to the event queue or reads the wake lock queue) its turn is several steps, and its
  place in between is part of the state.  An initialisation can be taken as one step, or in its
  parts: what it does until the threads run (\<open>restarted\<close> after \<open>quiet\<close>), the initialisation of
  each sub-HAL, and the operation mode; in between, events are posted and written.

  Four abstractions are made.  The scoped wake lock that is handed to
  \<open>postEventsToMessageQueue\<close> is released when the function ends: this release is a step of its own
  (\<open>unlock\<close> of \<open>hal_step\<close>).  \<open>Stop_Protocol\<close> looks at the waiting loops only, with the queues
  reduced to a flag and without the flags that wake a thread from reading or writing a queue.
  An update of an array is that of a list, so that an index out of range has no meaning of its
  own; the loops of the light correction use constants below the length of the arrays.  The
  dialogs of the key handler run in another process than the camera service, but their two
  writes to the motor's files are taken together.

  The camera helper has a record of its own, with the fields of \<open>CameraMotorService\<close> and the
  writes to the motor's files in their order.  Its callbacks run one after the other on the
  main thread, so each is one step.  The queue of messages of \<open>android.os.Handler\<close> is an argument with
  its documented behaviour as a hypothesis, and the time a message is due and the time of an
  event are on different clocks, as in the code.

  \<^bold>\<open>What is shown\<close>

  Handles: the bit operations are the arithmetic they stand for; packing is invertible for an
  index below 128, and not above.  Sensors: the list that the loops collect is the one its
  description gives, and stays it; every sensor of every sub-HAL can be reached by its handle,
  at any time, and calls reach exactly the sub-HAL they are for; the dynamic sensors are those
  the framework has been told about.  Events: under every interleaving, initialisations
  included, the proxy behaves like a line of events; so what the framework gets is a
  selection of what was posted, in order, and all of it if nothing overflows or fails; the
  pending events are counted without wrap-around and are drained.  Memory: indices stay in
  range and the maps in order, and the pointers are set when the initialisation went well.
  Every event leads back to the sub-HAL that posted it, and each sub-HAL's events arrive in its
  own order.  Wake lock: the kernel's lock is held while the count is positive; and as long as the
  framework acknowledges only what it may and no failing write takes wake-up events back, the
  count is, between timeouts, the number of wake-up events that are not acknowledged and of
  scoped wake locks that are alive, so the device does not sleep while a wake-up event waits.  Light:
  readings are limited in rate, not negative and steady, and at a forced update more light is
  not reported as less.  Area: the sums are exact, and the means
  lie between the bytes of the picture.  Camera: the motor ends in the direction of the last
  event whatever the timing, never moves against the camera when messages are prompt, and
  keeps the camera down after a fall.  Initialisation: nothing but the wake lock is left of
  the time before.

  Several theorems state where the code does less than it means to: the wake lock that an
  initialisation does not give back, the count of wake-up events that is wrong after a
  partial write, the acknowledgement that comes after a timeout and releases the lock of
  a newer event, the lost wake-up when the threads are stopped, the null pointer that is
  followed after a failed initialisation, the hysteresis table that is scaled once per light
  sensor, the bias that makes bright readings darker than dark ones, the area that is
  not configured, the camera that is raised after it was closed because the two clocks differ,
  and the fall that an opening overrides.

  \<^bold>\<open>Bounds\<close>

  \<open>limit_ok\<close> and \<open>vector_ok\<close> say that the limit of pending events and the length of one list
  are below \<open>2^63\<close>; a list in memory is.  No definition needs fuel: every loop of the code
  runs over a list or a range, and the two loops that do not end are transition systems.

  \<^bold>\<open>What is not modelled\<close>

  The text of log messages; the members of sensor descriptions and events that the code
  copies without looking at them; the look of the camera helper's dialogs; the AIDL interface,
  which declares data, and configuration, which is data for other programs.  Memory that is read after
  it was freed, and data races other than those of the mutexes and condition variables, are
  beyond the model: \<open>mSensors\<close> and \<open>mDynamicSensors\<close> are changed in single steps.
\<close>

subsection \<open>Properties that span components\<close>

text \<open>
  C7: events carry the handle under which their sensor is listed.  After the constructor has
  collected the sensors of at most 128 sub-HALs, an event that sub-HAL \<open>i\<close> posts for a sensor
  it had reported reaches the proxy with a handle that is in the list of sensors, leads back
  to sub-HAL \<open>i\<close>, and without its index is the handle the sub-HAL used.
\<close>

theorem events_carry_listed_handles:
  assumes "mask_is_first_byte K" and "length (mSubHalList s) \<le> 128"
    and "i < length (mSubHalList s)" and "x \<in> set (reported ops s i)"
    and "subHalIndexIsClear K (info_sensorHandle x)"
    and "t = initializeSensorList K ops ai s"
    and "sensorHandle e = info_sensorHandle x"
    and "h = sensorHandle (fst (fst (processEvents K (of_nat i) gsi [e] u)) ! 0)"
  shows "map_find (mSensors t) h \<noteq> None \<and> isSubHalIndexValid h t
       \<and> getSubHalForSensorHandle h = i \<and> clearSubHalIndex K h = sensorHandle e"
proof -
  have "i < 128" using assms(2,3) by simp
  then have h: "h = proxy_handle i x"
    by (simp add: assms(7,8) process_events tagged_handle proxy_handle_def scast_of_nat_small)
  have len: "length (mSubHalList t) = length (mSubHalList s)"
    by (simp add: assms(6) initialize_length)
  have "has_sensor h t"
    unfolding h assms(6) by (rule has_sensor_init [OF assms(3-5)])
  moreover note route [OF assms(1,5), of i t]
  ultimately show ?thesis
    using assms(2,3,7) len by (simp add: h has_sensor_def)
qed

theorem events_carry_listed_handles_witness:
  "map_find (mSensors (initializeSensorList example_consts example_ops id
      (example_proxy [[example_sensor 1 0], [example_sensor 7 0]]))) 0x1000007 \<noteq> None
   \<and> isSubHalIndexValid 0x1000007 (initializeSensorList example_consts example_ops id
      (example_proxy [[example_sensor 1 0], [example_sensor 7 0]]))
   \<and> getSubHalForSensorHandle 0x1000007 = 1
   \<and> clearSubHalIndex example_consts 0x1000007 = sensorHandle (example_event 7)"
  by (rule events_carry_listed_handles [where i = 1 and x = "example_sensor 7 0" and e = "example_event 7"
        and gsi = "\<lambda>h u. (default_sensor_info, u)" and u = "()"
        and s = "example_proxy [[example_sensor 1 0], [example_sensor 7 0]]" and ops = example_ops
        and ai = id])
    (simp_all add: example_proxy_def reported_def example_ops_def example_sensor_def example_event_def
      process_events tagged_handle setSubHalIndex_def kBitsAfterSubHalIndex_def)

end
